theory Spec2Isabelle
  imports Complex_Main "HOL-Library.AList"
begin

section \<open>Python values, the store and exceptions\<close>

text \<open>
  The module \<open>monailabel/transform/pre.py\<close> holds three transforms over a data
  dictionary. Dictionaries and numpy arrays are mutable objects that the code shares by
  reference, so they live in a store and values refer to them by address:
  \<^item> \<open>dicts\<close> holds the dictionaries that a value can refer to: the metadata mappings
    (the \<open>{}\<close> of \<open>setdefault\<close> and whatever is found under a metadata key), and
    among these a caller's own dictionary when the caller has bound it under a key;
  \<^item> \<open>recs\<close> holds the dictionaries that no value refers to: the copies \<open>dict(data)\<close>
    that the transforms make and work on, and a caller's dictionary that is bound nowhere;
  \<^item> \<open>arrays\<close> holds the numpy arrays: shape, dtype, the \<open>writeable\<close> flag and the
    elements in row-major order.
  A caller's dictionary is given as \<open>Rec i\<close> or \<open>Dict i\<close>, by where it lives.
\<close>

type_synonym ref = nat

datatype val =
    VNone
  | VInt int
  | VStr string
  | VTuple "nat list"
  | VArr ref
  | VDict ref
  | VMetaTensor val val
  | VObject string

text \<open>
  \<open>VMetaTensor x m\<close> is the tensor that \<open>MetaTensor(x, meta=m)\<close> answers: it shares
  the memory of the array \<open>x\<close> and carries the mapping \<open>m\<close> itself. \<open>VObject\<close> stands
  for an object of the framework that the module never looks into.
\<close>

datatype dref = Rec ref | Dict ref

datatype dtype = Int8 | Int16 | Int32 | Int64 | UInt8 | UInt16 | UInt32 | UInt64 | Float64

text \<open>
  An element of an array is the rational number it denotes; the integer dtypes of numpy and
  \<open>float64\<close> are covered, \<open>nan\<close> and the infinities are not. A Python number is an
  \<open>int\<close> or a \<open>float\<close>, the latter again as the rational it denotes.
\<close>

datatype number = PyInt int | PyFloat rat

datatype ndarray =
  NDArray (shape: "nat list") (dtype: dtype) (writeable: bool) (elems: "rat list")

datatype error =
    KeyError string
  | NameError string
  | AttributeError
  | TypeError
  | IndexError
  | ValueError
  | OverflowError
  | RuntimeError
  | IOError
  | Dangling

text \<open>
  \<open>Dangling\<close> has no Python counterpart: it is the answer of the model when an address
  lies outside the store, so that no result depends on an unspecified \<open>xs ! i\<close>.
\<close>

datatype event = ImageOpen string | DefaultLoader dref | ParentLoader dref

record state =
  recs :: "(string \<times> val) list list"
  dicts :: "(string \<times> val) list list"
  arrays :: "ndarray list"
  trace :: "event list"

text \<open>
  \<open>trace\<close> records, in order, the calls that leave the module: every
  \<open>Image.open\<close> and every call of a loader the caller supplied or the class
  inherits. It is only written, never read.
\<close>

typedecl ImageReader

type_synonym 'a py = "state \<Rightarrow> (error + 'a) \<times> state"

definition ret :: "'a \<Rightarrow> 'a py" where
  "ret x s = (Inr x, s)"

definition raise :: "error \<Rightarrow> 'a py" where
  "raise e s = (Inl e, s)"

definition bind :: "'a py \<Rightarrow> ('a \<Rightarrow> 'b py) \<Rightarrow> 'b py" where
  "bind m f s = (case m s of (Inl e, s') \<Rightarrow> (Inl e, s') | (Inr x, s') \<Rightarrow> f x s')"

definition nth_opt :: "'a list \<Rightarrow> nat \<Rightarrow> 'a option" where
  "nth_opt xs i = (if i < length xs then Some (xs ! i) else None)"

subsection \<open>The surroundings of the module\<close>

text \<open>
  What the module takes from numpy, PIL, torch and the framework, and the names its
  namespace binds.
  \<^item> A global name is looked up when the line that uses it runs. The statements of the
    module bind \<open>module_names\<close> (lines 12 to 20 and the three class statements); neither
    \<open>np\<close> nor \<open>Image\<close> is among them. \<open>injected\<close> are the names that something
    outside the module has bound in its namespace by the time of the call; for the module
    as it is shipped and imported this list is empty.
  \<^item> \<open>Image_open path\<close> is \<open>np.asarray(Image.open(path))\<close> with numpy and PIL.
  \<^item> \<open>PostFix_meta\<close> is the string \<open>PostFix.meta()\<close>.
  \<^item> \<open>MetaTensor_init a al\<close> is what the constructor \<open>MetaTensor(x, meta=m)\<close> leaves in
    the mapping \<open>m\<close>, which held \<open>al\<close>, for data over the array \<open>a\<close>: the framework
    keeps the mapping as the tensor's own and writes entries into it (\<open>affine\<close>,
    \<open>space\<close>); or the error it raises, as torch does for a dtype it does not take.
  \<^item> \<open>np_overflow dt v\<close> is what numpy does with a value that the dtype cannot hold
    (from version 2 on a Python integer out of range raises OverflowError, before that it
    was stored reduced), and \<open>torch_cast dt v\<close> is the conversion torch applies to a value
    assigned into a tensor.
\<close>

record env =
  injected :: "string list"
  Image_open :: "string \<Rightarrow> error + ndarray"
  PostFix_meta :: string
  MetaTensor_init :: "ndarray \<Rightarrow> (string \<times> val) list \<Rightarrow> error + (string \<times> val) list"
  np_overflow :: "dtype \<Rightarrow> number \<Rightarrow> error + rat"
  torch_cast :: "dtype \<Rightarrow> number \<Rightarrow> error + rat"

definition module_names :: "string list" where
  "module_names =
     [''logging'', ''Optional'', ''KeysCollection'', ''ImageReader'', ''MetaTensor'',
      ''LoadImaged'', ''MapTransform'', ''PostFix'', ''logger'',
      ''LoadImageTensord'', ''LoadImageExd'', ''NormalizeLabeld'']"

definition load_global :: "env \<Rightarrow> string \<Rightarrow> unit py" where
  "load_global E name =
     (if name \<in> set module_names \<or> name \<in> set (injected E) then ret ()
      else raise (NameError name))"

subsection \<open>Operations on dictionaries and arrays\<close>

definition dict_at :: "state \<Rightarrow> dref \<Rightarrow> (string \<times> val) list option" where
  "dict_at s data = (case data of Rec i \<Rightarrow> nth_opt (recs s) i | Dict i \<Rightarrow> nth_opt (dicts s) i)"

text \<open>\<open>d = dict(data)\<close>: a new dictionary with the bindings of \<open>data\<close>.\<close>

definition dict_copy :: "dref \<Rightarrow> ref py" where
  "dict_copy data s =
     (case dict_at s data of
        None \<Rightarrow> (Inl Dangling, s)
      | Some al \<Rightarrow> (Inr (length (recs s)), s\<lparr>recs := recs s @ [al]\<rparr>))"

text \<open>\<open>d[key]\<close>: KeyError when the key is not bound.\<close>

definition getitem :: "ref \<Rightarrow> string \<Rightarrow> val py" where
  "getitem d key s =
     (case nth_opt (recs s) d of
        None \<Rightarrow> (Inl Dangling, s)
      | Some al \<Rightarrow>
          (case map_of al key of
             None \<Rightarrow> (Inl (KeyError key), s)
           | Some v \<Rightarrow> (Inr v, s)))"

text \<open>\<open>d[key] = v\<close>: a bound key keeps its place, a new key goes last.\<close>

definition setitem :: "ref \<Rightarrow> string \<Rightarrow> val \<Rightarrow> unit py" where
  "setitem d key v s =
     (case nth_opt (recs s) d of
        None \<Rightarrow> (Inl Dangling, s)
      | Some al \<Rightarrow> (Inr (), s\<lparr>recs := (recs s)[d := AList.update key v al]\<rparr>))"

text \<open>
  \<open>d.setdefault(key, {})\<close>: the value bound to \<open>key\<close> when there is one; otherwise
  a new empty mapping, which is bound to \<open>key\<close> and returned.
\<close>

definition setdefault :: "ref \<Rightarrow> string \<Rightarrow> val py" where
  "setdefault d key s =
     (case nth_opt (recs s) d of
        None \<Rightarrow> (Inl Dangling, s)
      | Some al \<Rightarrow>
          (case map_of al key of
             Some v \<Rightarrow> (Inr v, s)
           | None \<Rightarrow>
               (Inr (VDict (length (dicts s))),
                s\<lparr>recs := (recs s)[d := AList.update key (VDict (length (dicts s))) al],
                  dicts := dicts s @ [[]]\<rparr>)))"

text \<open>
  \<open>meta_dict[name] = v\<close>: item assignment on whatever \<open>setdefault\<close> returned. Only a
  dictionary takes a string as index; a string, a tuple, an integer and \<open>None\<close> have no
  item assignment, an array and a tensor refuse the index.
\<close>

definition meta_setitem :: "val \<Rightarrow> string \<Rightarrow> val \<Rightarrow> unit py" where
  "meta_setitem meta_dict name v s =
     (case meta_dict of
        VDict m \<Rightarrow>
          (case nth_opt (dicts s) m of
             None \<Rightarrow> (Inl Dangling, s)
           | Some al \<Rightarrow> (Inr (), s\<lparr>dicts := (dicts s)[m := AList.update name v al]\<rparr>))
      | VArr r \<Rightarrow> (Inl IndexError, s)
      | VMetaTensor x m \<Rightarrow> (Inl IndexError, s)
      | _ \<Rightarrow> (Inl TypeError, s))"

text \<open>\<open>base_ref v\<close> is the array whose memory a value is or, as a tensor, shares.\<close>

fun base_ref :: "val \<Rightarrow> ref option" where
  "base_ref (VArr r) = Some r"
| "base_ref (VMetaTensor x m) = base_ref x"
| "base_ref v = None"

text \<open>
  \<open>v.shape\<close>: an array has one, a tensor has the shape of what it wraps, nothing else
  has the attribute.
\<close>

fun shape_of :: "val \<Rightarrow> (nat list) py" where
  "shape_of (VArr r) s =
     (case nth_opt (arrays s) r of
        None \<Rightarrow> (Inl Dangling, s)
      | Some a \<Rightarrow> (Inr (shape a), s))"
| "shape_of (VMetaTensor x m) s = shape_of x s"
| "shape_of v s = (Inl AttributeError, s)"

text \<open>
  \<open>MetaTensor(x, meta=meta_dict)\<close>: the constructor of the framework, run on the mapping
  that \<open>meta_dict\<close> is. When it raises, the mapping is as it was.
\<close>

definition MetaTensor_new :: "env \<Rightarrow> val \<Rightarrow> val \<Rightarrow> val py" where
  "MetaTensor_new E x meta_dict s =
     (case base_ref x of
        None \<Rightarrow> (Inl TypeError, s)
      | Some r \<Rightarrow>
          (case nth_opt (arrays s) r of
             None \<Rightarrow> (Inl Dangling, s)
           | Some a \<Rightarrow>
               (case meta_dict of
                  VDict m \<Rightarrow>
                    (case nth_opt (dicts s) m of
                       None \<Rightarrow> (Inl Dangling, s)
                     | Some al \<Rightarrow>
                         (case MetaTensor_init E a al of
                            Inl e \<Rightarrow> (Inl e, s)
                          | Inr al' \<Rightarrow>
                              (Inr (VMetaTensor x meta_dict), s\<lparr>dicts := (dicts s)[m := al']\<rparr>)))
                | _ \<Rightarrow> (Inl TypeError, s))))"

text \<open>
  The block that both loaders run on a value that is not loaded from a file:
  \<^verbatim>\<open>
  meta_dict = d.setdefault(meta_dict_key, {})
  meta_dict["spatial_shape"] = d[key].shape[:-1]
  meta_dict["original_channel_dim"] = -1
  meta_dict["original_affine"] = None
  image_np = d[key]
  d[key] = MetaTensor(image_np, meta=meta_dict)
  \<close>
  The right-hand side of the first assignment is evaluated before the assignment is
  tried. \<open>shape[:-1]\<close> is \<open>butlast\<close>, also on the empty shape.
\<close>

definition to_meta_tensor :: "env \<Rightarrow> ref \<Rightarrow> string \<Rightarrow> string \<Rightarrow> unit py" where
  "to_meta_tensor E d key meta_dict_key =
     bind (setdefault d meta_dict_key) (\<lambda>meta_dict.
     bind (getitem d key) (\<lambda>v.
     bind (shape_of v) (\<lambda>sh.
     bind (meta_setitem meta_dict ''spatial_shape'' (VTuple (butlast sh))) (\<lambda>_.
     bind (meta_setitem meta_dict ''original_channel_dim'' (VInt (- 1))) (\<lambda>_.
     bind (meta_setitem meta_dict ''original_affine'' VNone) (\<lambda>_.
     bind (getitem d key) (\<lambda>image_np.
     bind (load_global E ''MetaTensor'') (\<lambda>_.
     bind (MetaTensor_new E image_np meta_dict) (\<lambda>t.
     setitem d key t)))))))))"

text \<open>
  A loader from outside the module runs on the store; the trace stays the module's own.
\<close>

definition external :: "event \<Rightarrow> dref py \<Rightarrow> dref py" where
  "external ev f s =
     (case f s of (r, s') \<Rightarrow> (r, s'\<lparr>trace := trace s @ [ev]\<rparr>))"

section \<open>LoadImageTensord\<close>

record LoadImageTensord =
  keys :: "string list"
  allow_missing_keys :: bool
  load_image_d :: "(dref \<Rightarrow> dref py) option"

text \<open>
  \<open>np.asarray(Image.open(path))\<close>: the callee \<open>np.asarray\<close> is evaluated first, then
  the argument.
\<close>

definition image_open :: "env \<Rightarrow> string \<Rightarrow> ndarray py" where
  "image_open E path =
     bind (load_global E ''np'') (\<lambda>_.
     bind (load_global E ''Image'') (\<lambda>_.
       (\<lambda>s. case Image_open E path of
          Inl e \<Rightarrow> (Inl e, s\<lparr>trace := trace s @ [ImageOpen path]\<rparr>)
        | Inr a \<Rightarrow> (Inr a, s\<lparr>trace := trace s @ [ImageOpen path]\<rparr>))))"

text \<open>One round of the loop of \<open>LoadImageTensord.__call__\<close>; the result is \<open>use_default\<close>.\<close>

definition LoadImageTensord_body :: "env \<Rightarrow> ref \<Rightarrow> string \<Rightarrow> bool \<Rightarrow> bool py" where
  "LoadImageTensord_body E d key use_default =
     bind (getitem d key) (\<lambda>v.
       case v of
         VStr path \<Rightarrow> bind (image_open E path) (\<lambda>image_np. ret use_default)
       | _ \<Rightarrow>
           bind (load_global E ''PostFix'') (\<lambda>_.
           bind (to_meta_tensor E d key (key @ ''_'' @ PostFix_meta E)) (\<lambda>_. ret False)))"

fun LoadImageTensord_loop :: "env \<Rightarrow> ref \<Rightarrow> string list \<Rightarrow> bool \<Rightarrow> bool py" where
  "LoadImageTensord_loop E d [] use_default = ret use_default"
| "LoadImageTensord_loop E d (key # ks) use_default =
     bind (LoadImageTensord_body E d key use_default) (LoadImageTensord_loop E d ks)"

text \<open>
  \<open>self.load_image_d(d)\<close>: calling the default \<open>None\<close> raises TypeError.
\<close>

definition call_load_image_d :: "LoadImageTensord \<Rightarrow> dref \<Rightarrow> dref py" where
  "call_load_image_d self d =
     (case load_image_d self of
        None \<Rightarrow> raise TypeError
      | Some f \<Rightarrow> external (DefaultLoader d) (f d))"

definition LoadImageTensord_call :: "env \<Rightarrow> LoadImageTensord \<Rightarrow> dref \<Rightarrow> dref py" where
  "LoadImageTensord_call E self data =
     bind (dict_copy data) (\<lambda>d.
     bind (LoadImageTensord_loop E d (keys self) True) (\<lambda>use_default.
       if use_default then call_load_image_d self (Rec d) else ret (Rec d)))"

section \<open>LoadImageExd\<close>

text \<open>
  \<open>LoadImageExd\<close> extends the framework's \<open>LoadImaged\<close>: \<open>keysx\<close> and
  \<open>meta_key_postfix\<close> are the attributes it reads, \<open>LoadImaged_call\<close> is the inherited
  \<open>__call__\<close>.
\<close>

record LoadImageExd =
  keysx :: "string list"
  meta_key_postfix :: "string list"
  LoadImaged_call :: "dref \<Rightarrow> ImageReader option \<Rightarrow> dref py"

definition postfix_at :: "LoadImageExd \<Rightarrow> nat \<Rightarrow> string py" where
  "postfix_at self i s =
     (case nth_opt (meta_key_postfix self) i of
        None \<Rightarrow> (Inl IndexError, s)
      | Some p \<Rightarrow> (Inr p, s))"

definition is_ndarray :: "val \<Rightarrow> bool" where
  "is_ndarray v = (case v of VArr r \<Rightarrow> True | _ \<Rightarrow> False)"

text \<open>
  One round of the loop of \<open>LoadImageExd.__call__\<close>; the result is \<open>direct_image\<close>.
  In \<open>isinstance(d[key], np.ndarray)\<close> the first argument is evaluated, then \<open>np\<close> is
  looked up.
\<close>

definition LoadImageExd_body :: "env \<Rightarrow> LoadImageExd \<Rightarrow> ref \<Rightarrow> nat \<times> string \<Rightarrow> bool \<Rightarrow> bool py" where
  "LoadImageExd_body E self d ik direct_image =
     bind (getitem d (snd ik)) (\<lambda>v.
     bind (load_global E ''np'') (\<lambda>_.
       if is_ndarray v then
         bind (postfix_at self (fst ik)) (\<lambda>p.
         bind (to_meta_tensor E d (snd ik) (snd ik @ ''_'' @ p)) (\<lambda>_. ret True))
       else ret direct_image))"

fun LoadImageExd_loop :: "env \<Rightarrow> LoadImageExd \<Rightarrow> ref \<Rightarrow> (nat \<times> string) list \<Rightarrow> bool \<Rightarrow> bool py" where
  "LoadImageExd_loop E self d [] direct_image = ret direct_image"
| "LoadImageExd_loop E self d (ik # iks) direct_image =
     bind (LoadImageExd_body E self d ik direct_image) (LoadImageExd_loop E self d iks)"

definition LoadImageExd_call :: "env \<Rightarrow> LoadImageExd \<Rightarrow> dref \<Rightarrow> ImageReader option \<Rightarrow> dref py" where
  "LoadImageExd_call E self data reader =
     bind (dict_copy data) (\<lambda>d.
     bind (LoadImageExd_loop E self d (enumerate 0 (keysx self)) False) (\<lambda>direct_image.
       if \<not> direct_image then external (ParentLoader (Rec d)) (LoadImaged_call self (Rec d) reader)
       else ret (Rec d)))"

section \<open>NormalizeLabeld\<close>

record NormalizeLabeld =
  keysn :: "string list"
  allow_missing_keysn :: bool
  "value" :: number

text \<open>
  The conversion of the replacement value to the dtype of the array, as numpy does it when
  a Python scalar is assigned: an integer dtype takes an integer in its range as it is and
  a float cut off towards zero; \<open>float64\<close> takes a float as it is and an integer that it
  represents exactly.
\<close>

fun int_range :: "dtype \<Rightarrow> (int \<times> int) option" where
  "int_range Int8 = Some (- (2 ^ 7), 2 ^ 7 - 1)"
| "int_range Int16 = Some (- (2 ^ 15), 2 ^ 15 - 1)"
| "int_range Int32 = Some (- (2 ^ 31), 2 ^ 31 - 1)"
| "int_range Int64 = Some (- (2 ^ 63), 2 ^ 63 - 1)"
| "int_range UInt8 = Some (0, 2 ^ 8 - 1)"
| "int_range UInt16 = Some (0, 2 ^ 16 - 1)"
| "int_range UInt32 = Some (0, 2 ^ 32 - 1)"
| "int_range UInt64 = Some (0, 2 ^ 64 - 1)"
| "int_range Float64 = None"

definition trunc :: "rat \<Rightarrow> int" where
  "trunc q = (if 0 \<le> q then \<lfloor>q\<rfloor> else \<lceil>q\<rceil>)"

definition np_cast :: "env \<Rightarrow> dtype \<Rightarrow> number \<Rightarrow> error + rat" where
  "np_cast E dt v =
     (case int_range dt of
        Some (lo, hi) \<Rightarrow>
          (let t = (case v of PyInt i \<Rightarrow> i | PyFloat q \<Rightarrow> trunc q)
           in if lo \<le> t \<and> t \<le> hi then Inr (of_int t) else np_overflow E dt v)
      | None \<Rightarrow>
          (case v of
             PyFloat q \<Rightarrow> Inr q
           | PyInt i \<Rightarrow> if \<bar>i\<bar> \<le> 2 ^ 53 then Inr (of_int i) else np_overflow E dt v))"

definition binarize :: "rat \<Rightarrow> rat \<Rightarrow> rat" where
  "binarize c x = (if x > 0 then c else x)"

definition binarized :: "rat \<Rightarrow> ndarray \<Rightarrow> ndarray" where
  "binarized c a = NDArray (shape a) (dtype a) (writeable a) (map (binarize c) (elems a))"

text \<open>
  \<open>label[label > 0] = self.value\<close>. On an array, numpy refuses a destination that is not
  writeable (ValueError), converts the value to the dtype and stores it where the mask
  holds. A tensor shares the memory of its array and has no such flag; torch does the
  conversion. Nothing else can be compared with \<open>0\<close> and then assigned to.
\<close>

fun assign_positive :: "env \<Rightarrow> number \<Rightarrow> val \<Rightarrow> unit py" where
  "assign_positive E v (VArr r) s =
     (case nth_opt (arrays s) r of
        None \<Rightarrow> (Inl Dangling, s)
      | Some a \<Rightarrow>
          if \<not> writeable a then (Inl ValueError, s)
          else
            (case np_cast E (dtype a) v of
               Inl e \<Rightarrow> (Inl e, s)
             | Inr c \<Rightarrow> (Inr (), s\<lparr>arrays := (arrays s)[r := binarized c a]\<rparr>)))"
| "assign_positive E v (VMetaTensor x m) s =
     (case base_ref x of
        None \<Rightarrow> (Inl TypeError, s)
      | Some r \<Rightarrow>
          (case nth_opt (arrays s) r of
             None \<Rightarrow> (Inl Dangling, s)
           | Some a \<Rightarrow>
               (case torch_cast E (dtype a) v of
                  Inl e \<Rightarrow> (Inl e, s)
                | Inr c \<Rightarrow> (Inr (), s\<lparr>arrays := (arrays s)[r := binarized c a]\<rparr>))))"
| "assign_positive E v w s = (Inl TypeError, s)"

definition NormalizeLabeld_body :: "env \<Rightarrow> NormalizeLabeld \<Rightarrow> ref \<Rightarrow> string \<Rightarrow> unit py" where
  "NormalizeLabeld_body E self d key =
     bind (getitem d key) (\<lambda>label.
     bind (assign_positive E (value self) label) (\<lambda>_.
     setitem d key label))"

fun NormalizeLabeld_loop :: "env \<Rightarrow> NormalizeLabeld \<Rightarrow> ref \<Rightarrow> string list \<Rightarrow> unit py" where
  "NormalizeLabeld_loop E self d [] = ret ()"
| "NormalizeLabeld_loop E self d (key # ks) =
     bind (NormalizeLabeld_body E self d key) (\<lambda>_. NormalizeLabeld_loop E self d ks)"

definition NormalizeLabeld_call :: "env \<Rightarrow> NormalizeLabeld \<Rightarrow> dref \<Rightarrow> dref py" where
  "NormalizeLabeld_call E self data =
     bind (dict_copy data) (\<lambda>d.
     bind (NormalizeLabeld_loop E self d (keysn self)) (\<lambda>_. ret (Rec d)))"

section \<open>Notions used in the statements\<close>

text \<open>
  \<open>shipped E\<close>: nothing has bound \<open>np\<close> in the namespace of the module, as is the
  case for the module that is merely imported.
\<close>

definition shipped :: "env \<Rightarrow> bool" where
  "shipped E \<longleftrightarrow> ''np'' \<notin> set (injected E)"

text \<open>
  \<open>three\<close> are the names that the conversion block assigns in a metadata mapping.
  \<open>keeps_entries E\<close> is what the statements ask of the constructor of the framework:
  whatever it adds to the mapping it is given, the entries under these three names are
  afterwards what they were before.
\<close>

definition three :: "string set" where
  "three = {''spatial_shape'', ''original_channel_dim'', ''original_affine''}"

definition keeps_entries :: "env \<Rightarrow> bool" where
  "keeps_entries E \<longleftrightarrow>
     (\<forall>a al al'. MetaTensor_init E a al = Inr al' \<longrightarrow> (\<forall>j\<in>three. map_of al' j = map_of al j))"

text \<open>
  \<open>frame0 K d s s'\<close> relates the stores before and after a stretch of a loop that works
  on the copy \<open>d\<close> and converts keys of \<open>K\<close> only: no copy but \<open>d\<close> has changed, no
  array has changed, no dictionary has disappeared, every binding of \<open>d\<close> to a path
  string and every binding of a key outside \<open>K\<close> is as before, and nothing was added to
  the trace. \<open>frame\<close> allows, in addition, calls of \<open>Image.open\<close> in the trace.
\<close>

definition frame0 :: "string set \<Rightarrow> ref \<Rightarrow> state \<Rightarrow> state \<Rightarrow> bool" where
  "frame0 K d s s' \<longleftrightarrow>
     length (recs s') = length (recs s) \<and>
     (\<forall>i < length (recs s). i \<noteq> d \<longrightarrow> recs s' ! i = recs s ! i) \<and>
     arrays s' = arrays s \<and>
     length (dicts s) \<le> length (dicts s') \<and>
     (\<forall>k p. map_of (recs s ! d) k = Some (VStr p) \<longrightarrow> map_of (recs s' ! d) k = Some (VStr p)) \<and>
     (\<forall>k v. k \<notin> K \<longrightarrow> map_of (recs s ! d) k = Some v \<longrightarrow> map_of (recs s' ! d) k = Some v) \<and>
     trace s' = trace s"

definition frame :: "string set \<Rightarrow> ref \<Rightarrow> state \<Rightarrow> state \<Rightarrow> bool" where
  "frame K d s s' \<longleftrightarrow>
     (\<exists>ps. frame0 K d s (s'\<lparr>trace := trace s\<rparr>) \<and> trace s' = trace s @ map ImageOpen ps)"

text \<open>
  \<open>default_loader_invoked s s'\<close>: between the stores \<open>s\<close> and \<open>s'\<close> the trace has
  gained a call of the default loader.
\<close>

definition is_default_loader :: "event \<Rightarrow> bool" where
  "is_default_loader ev = (case ev of DefaultLoader d \<Rightarrow> True | _ \<Rightarrow> False)"

definition default_loader_invoked :: "state \<Rightarrow> state \<Rightarrow> bool" where
  "default_loader_invoked s s' = list_ex is_default_loader (drop (length (trace s)) (trace s'))"

text \<open>
  \<open>keeps_record data m\<close>: the computation \<open>m\<close>, run on any store, leaves the
  dictionary \<open>data\<close> as it is. It is what the statements ask of a loader that the module
  only calls.
\<close>

definition keeps_record :: "dref \<Rightarrow> dref py \<Rightarrow> bool" where
  "keeps_record data m \<longleftrightarrow>
     (\<forall>s r s' al. m s = (r, s') \<longrightarrow> dict_at s data = Some al \<longrightarrow> dict_at s' data = Some al)"

text \<open>
  \<open>populated st m\<close>: \<open>m\<close> is a dictionary of the store that binds the three names,
  \<open>spatial_shape\<close> to a tuple, the other two to \<open>-1\<close> and \<open>None\<close>.
  \<open>converted st d k mk a m\<close>: the copy \<open>d\<close> binds \<open>k\<close> to a tensor over the array
  \<open>a\<close> with metadata \<open>m\<close>, and binds the metadata key \<open>mk\<close> to the same \<open>m\<close>, which
  is populated. \<open>shaped st m a\<close>: the \<open>spatial_shape\<close> in \<open>m\<close> is the shape of \<open>a\<close>
  without its last axis.
\<close>

definition populated :: "state \<Rightarrow> ref \<Rightarrow> bool" where
  "populated st m \<longleftrightarrow>
     m < length (dicts st) \<and>
     (\<exists>t. map_of (dicts st ! m) ''spatial_shape'' = Some (VTuple t)) \<and>
     map_of (dicts st ! m) ''original_channel_dim'' = Some (VInt (- 1)) \<and>
     map_of (dicts st ! m) ''original_affine'' = Some VNone"

definition converted :: "state \<Rightarrow> ref \<Rightarrow> string \<Rightarrow> string \<Rightarrow> ref \<Rightarrow> ref \<Rightarrow> bool" where
  "converted st d k mk a m \<longleftrightarrow>
     (\<exists>x. map_of (recs st ! d) k = Some (VMetaTensor x (VDict m)) \<and> base_ref x = Some a) \<and>
     map_of (recs st ! d) mk = Some (VDict m) \<and> populated st m"

definition shaped :: "state \<Rightarrow> ref \<Rightarrow> ref \<Rightarrow> bool" where
  "shaped st m a \<longleftrightarrow>
     map_of (dicts st ! m) ''spatial_shape'' = Some (VTuple (butlast (shape (arrays st ! a))))"

text \<open>
  \<open>meta_outcome s s' al d' k mk\<close> is the state of the metadata key \<open>mk\<close> of \<open>k\<close> after
  a call on a dictionary with the bindings \<open>al\<close> that took the store from \<open>s\<close> to
  \<open>s'\<close> and returned the copy \<open>d'\<close>: the key is bound to a populated mapping, the one
  that the tensor under \<open>k\<close> carries. If \<open>al\<close> did not bind \<open>mk\<close>, the mapping was
  made during the call; if it did, the mapping is the one that was bound.
\<close>

definition meta_outcome :: "state \<Rightarrow> state \<Rightarrow> (string \<times> val) list \<Rightarrow> ref \<Rightarrow> string \<Rightarrow> string \<Rightarrow> bool" where
  "meta_outcome s s' al d' k mk \<longleftrightarrow>
     (\<exists>m. map_of (recs s' ! d') mk = Some (VDict m) \<and> populated s' m \<and>
          (\<exists>x. map_of (recs s' ! d') k = Some (VMetaTensor x (VDict m))) \<and>
          (case map_of al mk of
             None \<Rightarrow> length (dicts s) \<le> m
           | Some w \<Rightarrow> w = VDict m))"

text \<open>
  \<open>populate sh al\<close> is a mapping \<open>al\<close> after the three assignments of the conversion
  block, for an array of shape \<open>sh\<close>.
\<close>

definition populate :: "nat list \<Rightarrow> (string \<times> val) list \<Rightarrow> (string \<times> val) list" where
  "populate sh al =
     AList.update ''original_affine'' VNone
       (AList.update ''original_channel_dim'' (VInt (- 1))
          (AList.update ''spatial_shape'' (VTuple (butlast sh)) al))"

text \<open>
  \<open>created_then_populated E st st' d key mk\<close> is what one run of the conversion block
  on the key \<open>key\<close> of the copy \<open>d\<close>, with the metadata key \<open>mk\<close>, has done
  between the stores \<open>st\<close> and \<open>st'\<close>. Either \<open>mk\<close> was not bound: then it is
  bound to a new mapping, and that mapping is what the constructor has made of the empty
  mapping after the three assignments. Or \<open>mk\<close> was bound to a mapping: then it is
  bound to it still, and the mapping is what the constructor has made of its former
  entries after the three assignments. In both cases \<open>key\<close> is bound to the tensor
  that carries the mapping.
\<close>

definition created_then_populated :: "env \<Rightarrow> state \<Rightarrow> state \<Rightarrow> ref \<Rightarrow> string \<Rightarrow> string \<Rightarrow> bool" where
  "created_then_populated E st st' d key mk \<longleftrightarrow>
     (\<exists>v r m al'.
        map_of (recs st ! d) key = Some v \<and> base_ref v = Some r \<and> r < length (arrays st) \<and>
        (case map_of (recs st ! d) mk of
           None \<Rightarrow>
             m = length (dicts st) \<and> dicts st' = dicts st @ [al'] \<and>
             MetaTensor_init E (arrays st ! r) (populate (shape (arrays st ! r)) []) = Inr al'
         | Some w \<Rightarrow>
             w = VDict m \<and> m < length (dicts st) \<and> dicts st' = (dicts st)[m := al'] \<and>
             MetaTensor_init E (arrays st ! r) (populate (shape (arrays st ! r)) (dicts st ! m))
               = Inr al') \<and>
        map_of (recs st' ! d) mk = Some (VDict m) \<and>
        map_of (recs st' ! d) key = Some (VMetaTensor v (VDict m)))"

text \<open>
  \<open>tensor_outcome s s' d' k a\<close> is what the specification promises for a key \<open>k\<close> that
  held the array \<open>a\<close>: the returned copy binds \<open>k\<close> to a tensor over \<open>a\<close>, no array
  has changed, and the tensor's metadata has \<open>spatial_shape\<close> equal to the shape of
  \<open>a\<close> without its last axis, \<open>original_channel_dim\<close> equal to \<open>-1\<close> and
  \<open>original_affine\<close> equal to \<open>None\<close>.
\<close>

definition tensor_outcome :: "state \<Rightarrow> state \<Rightarrow> ref \<Rightarrow> string \<Rightarrow> ref \<Rightarrow> bool" where
  "tensor_outcome s s' d' k a \<longleftrightarrow>
     (\<exists>x m. map_of (recs s' ! d') k = Some (VMetaTensor x (VDict m)) \<and> base_ref x = Some a \<and>
        arrays s' = arrays s \<and> m < length (dicts s') \<and>
        map_of (dicts s' ! m) ''spatial_shape'' = Some (VTuple (butlast (shape (arrays s ! a)))) \<and>
        map_of (dicts s' ! m) ''original_channel_dim'' = Some (VInt (- 1)) \<and>
        map_of (dicts s' ! m) ''original_affine'' = Some VNone)"

text \<open>
  \<open>separate al n MK\<close>: wherever the bindings \<open>al\<close> bind a key of \<open>MK\<close> to a
  dictionary, it is one of the \<open>n\<close> dictionaries of the store, and no two keys of
  \<open>MK\<close> are bound to the same dictionary.
\<close>

definition separate :: "(string \<times> val) list \<Rightarrow> nat \<Rightarrow> string set \<Rightarrow> bool" where
  "separate al n MK \<longleftrightarrow>
     (\<forall>mk\<in>MK. \<forall>m. map_of al mk = Some (VDict m) \<longrightarrow> m < n) \<and>
     (\<forall>mk\<in>MK. \<forall>mk'\<in>MK. \<forall>m. map_of al mk = Some (VDict m) \<and> map_of al mk' = Some (VDict m) \<longrightarrow>
        mk = mk')"

text \<open>
  The metadata keys of the target keys that a loader converts: in
  \<open>LoadImageTensord\<close> the keys bound to anything but a path string, in
  \<open>LoadImageExd\<close> the keys bound to an array, each with the postfix of its
  position. \<open>exd_keys_apart\<close>: two converted keys of \<open>LoadImageExd\<close> with the same
  metadata key are the same key.
\<close>

definition is_path :: "val \<Rightarrow> bool" where
  "is_path v = (case v of VStr p \<Rightarrow> True | _ \<Rightarrow> False)"

definition direct_keys :: "LoadImageTensord \<Rightarrow> (string \<times> val) list \<Rightarrow> string set" where
  "direct_keys tself al = {j \<in> set (keys tself). \<exists>w. map_of al j = Some w \<and> \<not> is_path w}"

definition tensor_meta_keys :: "env \<Rightarrow> LoadImageTensord \<Rightarrow> (string \<times> val) list \<Rightarrow> string set" where
  "tensor_meta_keys E tself al = (\<lambda>j. j @ ''_'' @ PostFix_meta E) ` direct_keys tself al"

definition exd_meta_key :: "LoadImageExd \<Rightarrow> nat \<times> string \<Rightarrow> string" where
  "exd_meta_key xself ik = snd ik @ ''_'' @ meta_key_postfix xself ! fst ik"

definition array_keys :: "LoadImageExd \<Rightarrow> (string \<times> val) list \<Rightarrow> (nat \<times> string) set" where
  "array_keys xself al =
     {ik \<in> set (enumerate 0 (keysx xself)). \<exists>w. map_of al (snd ik) = Some w \<and> is_ndarray w}"

definition exd_meta_keys :: "LoadImageExd \<Rightarrow> (string \<times> val) list \<Rightarrow> string set" where
  "exd_meta_keys xself al = exd_meta_key xself ` array_keys xself al"

definition exd_keys_apart :: "LoadImageExd \<Rightarrow> (string \<times> val) list \<Rightarrow> bool" where
  "exd_keys_apart xself al \<longleftrightarrow>
     (\<forall>ik\<in>array_keys xself al. \<forall>ik'\<in>array_keys xself al.
        exd_meta_key xself ik = exd_meta_key xself ik' \<longrightarrow> snd ik = snd ik')"

text \<open>
  \<open>own_metadata al data MK\<close>: the caller has bound the dictionary \<open>data\<close> itself under
  one of the keys \<open>MK\<close> of its bindings \<open>al\<close>, as in
  \<open>data["image_meta_dict"] = data\<close>.
\<close>

definition own_metadata :: "(string \<times> val) list \<Rightarrow> dref \<Rightarrow> string set \<Rightarrow> bool" where
  "own_metadata al data MK \<longleftrightarrow>
     (case data of Dict n \<Rightarrow> (\<exists>mk\<in>MK. map_of al mk = Some (VDict n)) | Rec i \<Rightarrow> False)"

text \<open>
  An invariant of the loops, used in the proofs only. \<open>stable_inv al0 n0 d st\<close> relates
  the copy \<open>d\<close> to the bindings \<open>al0\<close> it started with, in a store that then had
  \<open>n0\<close> dictionaries: a path string stays, a key that was not bound is bound to a
  dictionary made since, if at all, and a key that was bound is bound as before or to a
  tensor.
\<close>

definition stable_inv :: "(string \<times> val) list \<Rightarrow> nat \<Rightarrow> ref \<Rightarrow> state \<Rightarrow> bool" where
  "stable_inv al0 n0 d st \<longleftrightarrow>
     n0 \<le> length (dicts st) \<and>
     (\<forall>j p. map_of al0 j = Some (VStr p) \<longrightarrow> map_of (recs st ! d) j = Some (VStr p)) \<and>
     (\<forall>j v. map_of al0 j = None \<longrightarrow> map_of (recs st ! d) j = Some v \<longrightarrow>
        (\<exists>m. v = VDict m \<and> n0 \<le> m)) \<and>
     (\<forall>j w. map_of al0 j = Some w \<longrightarrow>
        map_of (recs st ! d) j = Some w \<or> (\<exists>x y. map_of (recs st ! d) j = Some (VMetaTensor x y)))"

text \<open>
  What \<open>NormalizeLabeld\<close> writes, as a function of the bindings, used in the proofs.
  \<open>cast_of E w a v\<close> is the value that the assignment through \<open>w\<close> stores into the
  array \<open>a\<close>, or the error of the assignment. \<open>fills\<close> runs over the keys and keeps,
  for every array written so far, the value that its positive elements have become;
  \<open>filled K as\<close> are the arrays \<open>as\<close> after these writes.
\<close>

definition cast_of :: "env \<Rightarrow> val \<Rightarrow> ndarray \<Rightarrow> number \<Rightarrow> error + rat" where
  "cast_of E w a v =
     (case w of
        VArr r \<Rightarrow> if writeable a then np_cast E (dtype a) v else Inl ValueError
      | _ \<Rightarrow> torch_cast E (dtype a) v)"

fun fills :: "env \<Rightarrow> number \<Rightarrow> (string \<times> val) list \<Rightarrow> ndarray list \<Rightarrow> string list \<Rightarrow>
    (ref \<Rightarrow> rat option) \<Rightarrow> (ref \<Rightarrow> rat option) option" where
  "fills E v al as [] K = Some K"
| "fills E v al as (k # ks) K =
     (case map_of al k of
        None \<Rightarrow> None
      | Some w \<Rightarrow>
          (case base_ref w of
             None \<Rightarrow> None
           | Some r \<Rightarrow>
               if r < length as then
                 (case cast_of E w (as ! r) v of
                    Inl e \<Rightarrow> None
                  | Inr c \<Rightarrow>
                      fills E v al as ks
                        (K(r \<mapsto> (case K r of None \<Rightarrow> c | Some c0 \<Rightarrow> binarize c c0))))
               else None))"

definition filled :: "(ref \<Rightarrow> rat option) \<Rightarrow> ndarray list \<Rightarrow> ndarray list" where
  "filled K as =
     map (\<lambda>(r, a). case K r of None \<Rightarrow> a | Some c \<Rightarrow> binarized c a) (enumerate 0 as)"

text \<open>
  \<open>decodes E al k\<close>: the key is bound to a path string, the names \<open>np\<close> and
  \<open>Image\<close> are bound, and the file opens.
\<close>

definition decodes :: "env \<Rightarrow> (string \<times> val) list \<Rightarrow> string \<Rightarrow> bool" where
  "decodes E al k \<longleftrightarrow>
     ''np'' \<in> set (injected E) \<and> ''Image'' \<in> set (injected E) \<and>
     (case map_of al k of
        Some (VStr p) \<Rightarrow> (case Image_open E p of Inr a \<Rightarrow> True | Inl e \<Rightarrow> False)
      | _ \<Rightarrow> False)"

section \<open>Concrete inputs\<close>

text \<open>
  The surroundings, transforms and stores at which the witnesses and the counterexamples
  run. \<open>ex_env\<close> is the module as shipped: nothing is injected into its namespace. Its
  constructor writes \<open>affine\<close> and \<open>space\<close> as the framework does, and its numpy
  answers an integer out of range with OverflowError. \<open>ex_env_patched\<close> is the same
  with \<open>np\<close> and \<open>Image\<close> bound in the namespace, as after
  \<open>pre.np = numpy; pre.Image = PIL.Image\<close>. \<open>ex_decoder\<close> opens one file,
  \<open>x.png\<close>, and no other; \<open>ex_loader\<close> and \<open>ex_parent\<close> stand for a default
  loader and for the inherited \<open>__call__\<close>: each marks the dictionary it is given and
  returns it.
\<close>

definition ex_decoder :: "string \<Rightarrow> error + ndarray" where
  "ex_decoder p =
     (if p = ''x.png'' then Inr (NDArray [1, 1, 3] UInt8 True [0, 0, 0]) else Inl IOError)"

definition ex_constructor :: "ndarray \<Rightarrow> (string \<times> val) list \<Rightarrow> error + (string \<times> val) list" where
  "ex_constructor a al =
     (let al1 = AList.update ''affine'' (VObject ''affine'') al
      in Inr (if map_of al1 ''space'' = None then AList.update ''space'' (VStr ''RAS'') al1 else al1))"

definition ex_torch_cast :: "dtype \<Rightarrow> number \<Rightarrow> error + rat" where
  "ex_torch_cast dt v =
     (case int_range dt of
        Some (lo, hi) \<Rightarrow>
          (let t = (case v of PyInt i \<Rightarrow> i | PyFloat q \<Rightarrow> trunc q)
           in if lo \<le> t \<and> t \<le> hi then Inr (of_int t) else Inl RuntimeError)
      | None \<Rightarrow> (case v of PyInt i \<Rightarrow> Inr (of_int i) | PyFloat q \<Rightarrow> Inr q))"

definition ex_env :: env where
  "ex_env = \<lparr>injected = [], Image_open = ex_decoder, PostFix_meta = ''meta_dict'',
            MetaTensor_init = ex_constructor, np_overflow = (\<lambda>dt v. Inl OverflowError),
            torch_cast = ex_torch_cast\<rparr>"

definition ex_env_patched :: env where
  "ex_env_patched = ex_env\<lparr>injected := [''np'', ''Image'']\<rparr>"

definition ex_loader :: "dref \<Rightarrow> dref py" where
  "ex_loader d = (case d of Rec i \<Rightarrow> bind (setitem i ''loaded'' (VInt 1)) (\<lambda>_. ret d) | Dict i \<Rightarrow> ret d)"

definition ex_parent :: "dref \<Rightarrow> ImageReader option \<Rightarrow> dref py" where
  "ex_parent d reader =
     (case d of Rec i \<Rightarrow> bind (setitem i ''loaded'' (VInt 2)) (\<lambda>_. ret d) | Dict i \<Rightarrow> ret d)"

definition ex_pixels :: "rat list" where
  "ex_pixels = replicate 300 0"

definition ex_small :: "rat list" where
  "ex_small = replicate 16 0"

text \<open>The record \<open>{"image": "x.png"}\<close>, and the store after \<open>dict(data)\<close>.\<close>

definition ex_tensord :: LoadImageTensord where
  "ex_tensord = \<lparr>keys = [''image''], allow_missing_keys = False, load_image_d = Some ex_loader\<rparr>"

definition ex_path_state :: state where
  "ex_path_state = \<lparr>recs = [[(''image'', VStr ''x.png'')]], dicts = [], arrays = [], trace = []\<rparr>"

definition ex_path_copied :: state where
  "ex_path_copied =
     \<lparr>recs = [[(''image'', VStr ''x.png'')], [(''image'', VStr ''x.png'')]],
      dicts = [], arrays = [], trace = []\<rparr>"

text \<open>
  The record \<open>{"label": array([-1, 0, 2, 5])}\<close> with an \<open>int64\<close> array, the store after
  \<open>NormalizeLabeld\<close> with the values \<open>1\<close> and \<open>0.5\<close>, and the same record with the
  array made read-only.
\<close>

definition ex_normalize :: NormalizeLabeld where
  "ex_normalize = \<lparr>keysn = [''label''], allow_missing_keysn = False, value = PyInt 1\<rparr>"

definition ex_normalize_half :: NormalizeLabeld where
  "ex_normalize_half = \<lparr>keysn = [''label''], allow_missing_keysn = False, value = PyFloat (1 / 2)\<rparr>"

definition ex_label_state :: state where
  "ex_label_state =
     \<lparr>recs = [[(''label'', VArr 0)]], dicts = [],
      arrays = [NDArray [4] Int64 True [- 1, 0, 2, 5]], trace = []\<rparr>"

definition ex_label_state1 :: state where
  "ex_label_state1 =
     \<lparr>recs = [[(''label'', VArr 0)], [(''label'', VArr 0)]], dicts = [],
      arrays = [NDArray [4] Int64 True [- 1, 0, 1, 1]], trace = []\<rparr>"

definition ex_label_half :: state where
  "ex_label_half =
     \<lparr>recs = [[(''label'', VArr 0)], [(''label'', VArr 0)]], dicts = [],
      arrays = [NDArray [4] Int64 True [- 1, 0, 0, 0]], trace = []\<rparr>"

definition ex_readonly_state :: state where
  "ex_readonly_state =
     \<lparr>recs = [[(''label'', VArr 0)]], dicts = [],
      arrays = [NDArray [4] Int64 False [- 1, 0, 2, 5]], trace = []\<rparr>"

definition ex_readonly_copied :: state where
  "ex_readonly_copied =
     \<lparr>recs = [[(''label'', VArr 0)], [(''label'', VArr 0)]], dicts = [],
      arrays = [NDArray [4] Int64 False [- 1, 0, 2, 5]], trace = []\<rparr>"

text \<open>
  The record \<open>{"image": array, "label": "l.png"}\<close> with a \<open>uint8\<close> image of shape
  \<open>(10, 10, 3)\<close>, and the record \<open>{"image": array}\<close> alone.
\<close>

definition ex_tensord_both :: LoadImageTensord where
  "ex_tensord_both =
     \<lparr>keys = [''image'', ''label''], allow_missing_keys = False, load_image_d = Some ex_loader\<rparr>"

definition ex_exd :: LoadImageExd where
  "ex_exd = \<lparr>keysx = [''image'', ''label''], meta_key_postfix = [''meta_dict'', ''meta_dict''],
            LoadImaged_call = ex_parent\<rparr>"

definition ex_exd_image :: LoadImageExd where
  "ex_exd_image = \<lparr>keysx = [''image''], meta_key_postfix = [''meta_dict''],
                  LoadImaged_call = ex_parent\<rparr>"



definition ex_image_state :: state where
  "ex_image_state =
     \<lparr>recs = [[(''image'', VArr 0), (''label'', VStr ''l.png'')]], dicts = [],
      arrays = [NDArray [10, 10, 3] UInt8 True ex_pixels], trace = []\<rparr>"

definition ex_image_copied :: state where
  "ex_image_copied =
     \<lparr>recs = [[(''image'', VArr 0), (''label'', VStr ''l.png'')],
              [(''image'', VArr 0), (''label'', VStr ''l.png'')]], dicts = [],
      arrays = [NDArray [10, 10, 3] UInt8 True ex_pixels], trace = []\<rparr>"

definition ex_array_state :: state where
  "ex_array_state =
     \<lparr>recs = [[(''image'', VArr 0)]], dicts = [],
      arrays = [NDArray [10, 10, 3] UInt8 True ex_pixels], trace = []\<rparr>"

definition ex_array_copied :: state where
  "ex_array_copied =
     \<lparr>recs = [[(''image'', VArr 0)], [(''image'', VArr 0)]], dicts = [],
      arrays = [NDArray [10, 10, 3] UInt8 True ex_pixels], trace = []\<rparr>"

text \<open>
  The metadata that the conversion of the image leaves, and the stores after it: after
  the round of \<open>image\<close> alone, the same with the attempt to open \<open>l.png\<close> in the
  trace, and for the record \<open>{"image": array}\<close>.
\<close>

definition ex_meta :: "(string \<times> val) list" where
  "ex_meta = [(''spatial_shape'', VTuple [10, 10]), (''original_channel_dim'', VInt (- 1)),
              (''original_affine'', VNone), (''affine'', VObject ''affine''),
              (''space'', VStr ''RAS'')]"

definition ex_image_state1 :: state where
  "ex_image_state1 =
     \<lparr>recs = [[(''image'', VArr 0), (''label'', VStr ''l.png'')],
              [(''image'', VMetaTensor (VArr 0) (VDict 0)), (''label'', VStr ''l.png''),
               (''image_meta_dict'', VDict 0)]],
      dicts = [ex_meta],
      arrays = [NDArray [10, 10, 3] UInt8 True ex_pixels], trace = []\<rparr>"

definition ex_image_state2 :: state where
  "ex_image_state2 = ex_image_state1\<lparr>trace := [ImageOpen ''l.png'']\<rparr>"

definition ex_array_state1 :: state where
  "ex_array_state1 =
     \<lparr>recs = [[(''image'', VArr 0)],
              [(''image'', VMetaTensor (VArr 0) (VDict 0)), (''image_meta_dict'', VDict 0)]],
      dicts = [ex_meta],
      arrays = [NDArray [10, 10, 3] UInt8 True ex_pixels], trace = []\<rparr>"

text \<open>
  Transforms with a target key that the records above do not bind: \<open>mask\<close>, and
  \<open>image_meta_dict\<close>, the metadata key of \<open>image\<close>, with the store in which the call
  on \<open>{"image": array}\<close> ends.
\<close>

definition ex_tensord_mask :: LoadImageTensord where
  "ex_tensord_mask =
     \<lparr>keys = [''image'', ''mask''], allow_missing_keys = False, load_image_d = Some ex_loader\<rparr>"

definition ex_tensord_chain :: LoadImageTensord where
  "ex_tensord_chain =
     \<lparr>keys = [''image'', ''image_meta_dict''], allow_missing_keys = True,
      load_image_d = Some ex_loader\<rparr>"

definition ex_normalize_mask :: NormalizeLabeld where
  "ex_normalize_mask = \<lparr>keysn = [''label'', ''mask''], allow_missing_keysn = False, value = PyInt 1\<rparr>"

definition ex_chain_state :: state where
  "ex_chain_state =
     \<lparr>recs = [[(''image'', VArr 0)],
              [(''image'', VMetaTensor (VArr 0) (VDict 0)), (''image_meta_dict'', VDict 0),
               (''image_meta_dict_meta_dict'', VDict 1)]],
      dicts = [ex_meta, []],
      arrays = [NDArray [10, 10, 3] UInt8 True ex_pixels], trace = []\<rparr>"

text \<open>
  A caller's dictionary that is bound under its own metadata key, as after
  \<open>data = {"image": array}; data["image_meta_dict"] = data\<close>, and the store after
  \<open>LoadImageTensord\<close>.
\<close>

definition ex_self_state :: state where
  "ex_self_state =
     \<lparr>recs = [], dicts = [[(''image'', VArr 0), (''image_meta_dict'', VDict 0)]],
      arrays = [NDArray [10, 10, 3] UInt8 True ex_pixels], trace = []\<rparr>"

definition ex_self_state1 :: state where
  "ex_self_state1 =
     \<lparr>recs = [[(''image'', VMetaTensor (VArr 0) (VDict 0)), (''image_meta_dict'', VDict 0)]],
      dicts = [[(''image'', VArr 0), (''image_meta_dict'', VDict 0),
                (''spatial_shape'', VTuple [10, 10]), (''original_channel_dim'', VInt (- 1)),
                (''original_affine'', VNone), (''affine'', VObject ''affine''),
                (''space'', VStr ''RAS'')]],
      arrays = [NDArray [10, 10, 3] UInt8 True ex_pixels], trace = []\<rparr>"

text \<open>
  The record \<open>{"image": a, "label": b, "image_meta_dict": m, "label_meta_dict": m}\<close>
  with arrays of shapes \<open>(10, 10, 3)\<close> and \<open>(4, 4, 1)\<close> and one empty mapping \<open>m\<close>
  under both metadata keys, and the store after \<open>LoadImageTensord\<close>.
\<close>

definition ex_shared_state :: state where
  "ex_shared_state =
     \<lparr>recs = [[(''image'', VArr 0), (''label'', VArr 1),
               (''image_meta_dict'', VDict 0), (''label_meta_dict'', VDict 0)]],
      dicts = [[]],
      arrays = [NDArray [10, 10, 3] UInt8 True ex_pixels, NDArray [4, 4, 1] UInt8 True ex_small],
      trace = []\<rparr>"

definition ex_shared_state1 :: state where
  "ex_shared_state1 =
     \<lparr>recs = [[(''image'', VArr 0), (''label'', VArr 1),
               (''image_meta_dict'', VDict 0), (''label_meta_dict'', VDict 0)],
              [(''image'', VMetaTensor (VArr 0) (VDict 0)), (''label'', VMetaTensor (VArr 1) (VDict 0)),
               (''image_meta_dict'', VDict 0), (''label_meta_dict'', VDict 0)]],
      dicts = [[(''spatial_shape'', VTuple [4, 4]), (''original_channel_dim'', VInt (- 1)),
                (''original_affine'', VNone), (''affine'', VObject ''affine''),
                (''space'', VStr ''RAS'')]],
      arrays = [NDArray [10, 10, 3] UInt8 True ex_pixels, NDArray [4, 4, 1] UInt8 True ex_small],
      trace = []\<rparr>"


text \<open>
  The record \<open>{"image": array, "image_meta_dict": {"filename": "a.png"}}\<close>, its copy,
  and the store after the conversion of \<open>image\<close>.
\<close>

definition ex_reuse_state :: state where
  "ex_reuse_state =
     \<lparr>recs = [[(''image'', VArr 0), (''image_meta_dict'', VDict 0)]],
      dicts = [[(''filename'', VStr ''a.png'')]],
      arrays = [NDArray [10, 10, 3] UInt8 True ex_pixels], trace = []\<rparr>"

definition ex_reuse_copied :: state where
  "ex_reuse_copied =
     \<lparr>recs = [[(''image'', VArr 0), (''image_meta_dict'', VDict 0)],
              [(''image'', VArr 0), (''image_meta_dict'', VDict 0)]],
      dicts = [[(''filename'', VStr ''a.png'')]],
      arrays = [NDArray [10, 10, 3] UInt8 True ex_pixels], trace = []\<rparr>"

definition ex_reuse_state1 :: state where
  "ex_reuse_state1 =
     \<lparr>recs = [[(''image'', VArr 0), (''image_meta_dict'', VDict 0)],
              [(''image'', VMetaTensor (VArr 0) (VDict 0)), (''image_meta_dict'', VDict 0)]],
      dicts = [(''filename'', VStr ''a.png'') # ex_meta],
      arrays = [NDArray [10, 10, 3] UInt8 True ex_pixels], trace = []\<rparr>"

text \<open>
  The store after \<open>LoadImageTensord\<close> on \<open>{"image": "x.png"}\<close> where \<open>np\<close> and
  \<open>Image\<close> are bound: the file was opened and the default loader has marked the copy.
\<close>

definition ex_path_state1 :: state where
  "ex_path_state1 =
     \<lparr>recs = [[(''image'', VStr ''x.png'')], [(''image'', VStr ''x.png''), (''loaded'', VInt 1)]],
      dicts = [], arrays = [], trace = [ImageOpen ''x.png'', DefaultLoader (Rec 1)]\<rparr>"

text \<open>
  The same with a constructor that refuses its input: \<open>ex_env_strict\<close>, and the store in
  which the call then ends.
\<close>

definition ex_env_strict :: env where
  "ex_env_strict = ex_env\<lparr>MetaTensor_init := (\<lambda>a al. Inl RuntimeError)\<rparr>"

definition ex_self_state2 :: state where
  "ex_self_state2 =
     \<lparr>recs = [[(''image'', VArr 0), (''image_meta_dict'', VDict 0)]],
      dicts = [[(''image'', VArr 0), (''image_meta_dict'', VDict 0),
                (''spatial_shape'', VTuple [10, 10]), (''original_channel_dim'', VInt (- 1)),
                (''original_affine'', VNone)]],
      arrays = [NDArray [10, 10, 3] UInt8 True ex_pixels], trace = []\<rparr>"

section \<open>Basic facts\<close>

text \<open>
  The exception monad and the operations on the store, one equation or one case rule each.
\<close>

lemma bind_Inr_iff:
  "bind m f s = (Inr y, s') \<longleftrightarrow> (\<exists>x s1. m s = (Inr x, s1) \<and> f x s1 = (Inr y, s'))"
  by (auto simp: bind_def split: prod.splits sum.splits)

lemma bind_eq_cases:
  assumes "bind m f s = (r, s')"
  obtains (fail) e where "m s = (Inl e, s')" "r = Inl e"
        | (go) x s1 where "m s = (Inr x, s1)" "f x s1 = (r, s')"
  using assms by (auto simp: bind_def split: prod.splits sum.splits)

lemma ret_eq [simp]: "ret x s = (r, s') \<longleftrightarrow> r = Inr x \<and> s' = s"
  by (auto simp: ret_def)

lemma raise_eq [simp]: "raise e s = (r, s') \<longleftrightarrow> r = Inl e \<and> s' = s"
  by (auto simp: raise_def)

lemma bind_assoc: "bind (bind m f) g = bind m (\<lambda>x. bind (f x) g)"
  by (intro ext) (simp add: bind_def split: prod.splits sum.splits)

lemma bind_ret [simp]: "bind (ret x) f = f x"
  by (intro ext) (simp add: bind_def ret_def)

lemma bind_raise [simp]: "bind (raise e) f = raise e"
  by (intro ext) (simp add: bind_def raise_def)

lemma nth_opt_Some [simp]: "nth_opt xs i = Some x \<longleftrightarrow> i < length xs \<and> xs ! i = x"
  by (auto simp: nth_opt_def)

lemma nth_opt_None [simp]: "nth_opt xs i = None \<longleftrightarrow> length xs \<le> i"
  by (auto simp: nth_opt_def)

lemma load_global_module [simp]:
  "load_global E ''MetaTensor'' = ret ()" "load_global E ''PostFix'' = ret ()"
  by (simp_all add: load_global_def module_names_def)

lemma load_global_np [simp]:
  "load_global E ''np'' = (if ''np'' \<in> set (injected E) then ret () else raise (NameError ''np''))"
  by (simp add: load_global_def module_names_def)

lemma load_global_Image [simp]:
  "load_global E ''Image'' =
     (if ''Image'' \<in> set (injected E) then ret () else raise (NameError ''Image''))"
  by (simp add: load_global_def module_names_def)

lemma dict_at_Rec [simp]: "dict_at s (Rec i) = nth_opt (recs s) i"
  by (simp add: dict_at_def)

lemma dict_at_Dict [simp]: "dict_at s (Dict i) = nth_opt (dicts s) i"
  by (simp add: dict_at_def)

lemma dict_copy_eq:
  "dict_at s data = Some al \<Longrightarrow>
   dict_copy data s = (Inr (length (recs s)), s\<lparr>recs := recs s @ [al]\<rparr>)"
  by (simp add: dict_copy_def)

lemma dict_copy_Inr:
  "dict_copy data s = (Inr d, s') \<longleftrightarrow>
     (\<exists>al. dict_at s data = Some al \<and> d = length (recs s) \<and> s' = s\<lparr>recs := recs s @ [al]\<rparr>)"
  by (auto simp: dict_copy_def split: option.splits)

lemma getitem_Inr:
  "getitem d key s = (Inr v, s') \<longleftrightarrow>
     s' = s \<and> d < length (recs s) \<and> map_of (recs s ! d) key = Some v"
  by (auto simp: getitem_def split: option.splits)

lemma getitem_state: "getitem d key s = (r, s') \<Longrightarrow> s' = s"
  by (auto simp: getitem_def split: option.splits)

lemma getitem_Inl:
  "getitem d key s = (Inl e, s') \<longleftrightarrow>
     s' = s \<and> (if d < length (recs s) then map_of (recs s ! d) key = None \<and> e = KeyError key
               else e = Dangling)"
  by (auto simp: getitem_def split: option.splits)

lemma setitem_eq:
  "setitem d key v s = (r, s') \<longleftrightarrow>
     (if d < length (recs s)
      then r = Inr () \<and> s' = s\<lparr>recs := (recs s)[d := AList.update key v (recs s ! d)]\<rparr>
      else r = Inl Dangling \<and> s' = s)"
  by (auto simp: setitem_def split: option.splits)

lemma setdefault_eq:
  "setdefault d key s = (r, s') \<longleftrightarrow>
     (if d < length (recs s) then
        (case map_of (recs s ! d) key of
           Some v \<Rightarrow> r = Inr v \<and> s' = s
         | None \<Rightarrow> r = Inr (VDict (length (dicts s))) \<and>
             s' = s\<lparr>recs := (recs s)[d := AList.update key (VDict (length (dicts s))) (recs s ! d)],
                    dicts := dicts s @ [[]]\<rparr>)
      else r = Inl Dangling \<and> s' = s)"
  by (auto simp: setdefault_def split: option.splits)

lemma meta_setitem_Inr:
  "meta_setitem md name v s = (Inr u, s') \<longleftrightarrow>
     (\<exists>m. md = VDict m \<and> m < length (dicts s) \<and>
          s' = s\<lparr>dicts := (dicts s)[m := AList.update name v (dicts s ! m)]\<rparr>)"
  by (auto simp: meta_setitem_def split: val.splits option.splits)

lemma meta_setitem_Inl: "meta_setitem md name v s = (Inl e, s') \<Longrightarrow> s' = s"
  by (auto simp: meta_setitem_def split: val.splits option.splits)

lemma shape_of_Inr:
  "shape_of v s = (Inr sh, s') \<longleftrightarrow>
     s' = s \<and> (\<exists>r. base_ref v = Some r \<and> r < length (arrays s) \<and> sh = shape (arrays s ! r))"
  by (induction v s rule: shape_of.induct) (auto split: option.splits)

lemma shape_of_state: "shape_of v s = (r, s') \<Longrightarrow> s' = s"
  by (induction v s rule: shape_of.induct) (auto split: option.splits)

lemma MetaTensor_new_Inr:
  "MetaTensor_new E x md s = (Inr t, s') \<longleftrightarrow>
     (\<exists>r m al'. base_ref x = Some r \<and> r < length (arrays s) \<and> md = VDict m \<and> m < length (dicts s) \<and>
        MetaTensor_init E (arrays s ! r) (dicts s ! m) = Inr al' \<and>
        t = VMetaTensor x md \<and> s' = s\<lparr>dicts := (dicts s)[m := al']\<rparr>)"
  by (auto simp: MetaTensor_new_def split: option.splits val.splits sum.splits)

lemma MetaTensor_new_Inl: "MetaTensor_new E x md s = (Inl e, s') \<Longrightarrow> s' = s"
  by (auto simp: MetaTensor_new_def split: option.splits val.splits sum.splits)

lemma external_eq:
  "external ev f s = (r, s') \<longleftrightarrow> (\<exists>s1. f s = (r, s1) \<and> s' = s1\<lparr>trace := trace s @ [ev]\<rparr>)"
  by (auto simp: external_def split: prod.splits)

lemma is_ndarray_iff: "is_ndarray v \<longleftrightarrow> (\<exists>a. v = VArr a)"
  by (cases v) (simp_all add: is_ndarray_def)

lemma is_path_iff: "is_path v \<longleftrightarrow> (\<exists>p. v = VStr p)"
  by (cases v) (simp_all add: is_path_def)

lemma snd_enumerate [simp]: "snd ` set (enumerate n xs) = set xs"
  by (metis map_snd_enumerate set_map)

lemma image_open_eq:
  "image_open E path s = (r, s') \<longleftrightarrow>
     (if ''np'' \<notin> set (injected E) then r = Inl (NameError ''np'') \<and> s' = s
      else if ''Image'' \<notin> set (injected E) then r = Inl (NameError ''Image'') \<and> s' = s
      else s' = s\<lparr>trace := trace s @ [ImageOpen path]\<rparr> \<and>
           (case Image_open E path of Inl e \<Rightarrow> r = Inl e | Inr a \<Rightarrow> r = Inr a))"
  by (auto simp: image_open_def bind_def ret_def raise_def split: sum.splits)

lemmas run_defs =
  LoadImageTensord_call_def LoadImageTensord_body_def LoadImageExd_call_def LoadImageExd_body_def
  NormalizeLabeld_call_def NormalizeLabeld_body_def
  call_load_image_d_def to_meta_tensor_def external_def image_open_def postfix_at_def is_ndarray_def
  bind_def ret_def raise_def dict_copy_def dict_at_def getitem_def setitem_def setdefault_def
  meta_setitem_def MetaTensor_new_def nth_opt_def


lemmas ex_defs =
  load_global_def module_names_def populate_def
  ex_env_def ex_env_patched_def ex_decoder_def ex_constructor_def ex_loader_def ex_parent_def
  ex_meta_def
section \<open>The loop of NormalizeLabeld\<close>

text \<open>
  What a round and the whole loop do to the store, when they return and when they raise.
\<close>

lemma binarize_idem [simp]: "binarize c (binarize c x) = binarize c x"
  by (simp add: binarize_def)

lemma binarize_binarize: "binarize c (binarize c0 x) = binarize (binarize c c0) x"
  by (simp add: binarize_def)

lemma binarized_sel [simp]:
  "shape (binarized c a) = shape a" "dtype (binarized c a) = dtype a"
  "writeable (binarized c a) = writeable a" "elems (binarized c a) = map (binarize c) (elems a)"
  by (simp_all add: binarized_def)

lemma binarized_idem [simp]: "binarized c (binarized c a) = binarized c a"
  by (simp add: binarized_def)

lemma binarized_binarized: "binarized c (binarized c0 a) = binarized (binarize c c0) a"
  by (simp add: binarized_def binarize_binarize)

lemma cast_of_binarized [simp]: "cast_of E w (binarized c a) v = cast_of E w a v"
  by (cases w) (simp_all add: cast_of_def)

lemma length_filled [simp]: "length (filled K as) = length as"
  by (simp add: filled_def)

lemma nth_filled:
  "r < length as \<Longrightarrow>
   filled K as ! r = (case K r of None \<Rightarrow> as ! r | Some c \<Rightarrow> binarized c (as ! r))"
  by (simp add: filled_def nth_enumerate_eq)

lemma filled_empty [simp]: "filled (\<lambda>r. None) as = as"
  by (rule nth_equalityI) (simp_all add: nth_filled)

lemma filled_filled [simp]: "filled K (filled K as) = filled K as"
  by (rule nth_equalityI) (simp_all add: nth_filled split: option.splits)

lemma cast_of_filled [simp]: "r < length as \<Longrightarrow> cast_of E w (filled K as ! r) v = cast_of E w (as ! r) v"
  by (simp add: nth_filled split: option.splits)

lemma filled_update:
  assumes "r < length as"
  shows "(filled K as)[r := binarized c (filled K as ! r)] =
         filled (K(r \<mapsto> (case K r of None \<Rightarrow> c | Some c0 \<Rightarrow> binarize c c0))) as"
proof (rule nth_equalityI)
  show "length ((filled K as)[r := binarized c (filled K as ! r)]) =
        length (filled (K(r \<mapsto> (case K r of None \<Rightarrow> c | Some c0 \<Rightarrow> binarize c c0))) as)"
    by simp
next
  fix i assume "i < length ((filled K as)[r := binarized c (filled K as ! r)])"
  then have i: "i < length as" by simp
  show "(filled K as)[r := binarized c (filled K as ! r)] ! i =
        filled (K(r \<mapsto> (case K r of None \<Rightarrow> c | Some c0 \<Rightarrow> binarize c c0))) as ! i"
    using i assms by (cases "i = r") (simp_all add: nth_filled binarized_binarized split: option.splits)
qed

lemma fills_filled: "fills E v al (filled K' as) ks K = fills E v al as ks K"
  by (induction ks arbitrary: K) (simp_all split: option.splits sum.splits)

lemma assign_positive_Inr:
  "assign_positive E v w s = (Inr u, s') \<longleftrightarrow>
     (\<exists>r c. base_ref w = Some r \<and> r < length (arrays s) \<and>
          cast_of E w (arrays s ! r) v = Inr c \<and>
          s' = s\<lparr>arrays := (arrays s)[r := binarized c (arrays s ! r)]\<rparr>)"
  by (induction E v w s rule: assign_positive.induct)
     (auto simp: cast_of_def split: option.splits sum.splits)

lemma assign_positive_recs:
  "assign_positive E v w s = (r, s') \<Longrightarrow>
     recs s' = recs s \<and> dicts s' = dicts s \<and> trace s' = trace s \<and>
     length (arrays s') = length (arrays s)"
  by (induction E v w s rule: assign_positive.induct) (auto split: option.splits sum.splits if_splits)

lemma NormalizeLabeld_body_Inr:
  "NormalizeLabeld_body E self d key s = (Inr u, s') \<longleftrightarrow>
     (\<exists>label r c. d < length (recs s) \<and> map_of (recs s ! d) key = Some label \<and>
        base_ref label = Some r \<and> r < length (arrays s) \<and>
        cast_of E label (arrays s ! r) (value self) = Inr c \<and>
        s' = s\<lparr>arrays := (arrays s)[r := binarized c (arrays s ! r)]\<rparr>)"
proof
  assume "NormalizeLabeld_body E self d key s = (Inr u, s')"
  then obtain label s1 s2 where
    g: "getitem d key s = (Inr label, s1)" and
    a: "assign_positive E (value self) label s1 = (Inr (), s2)" and
    w: "setitem d key label s2 = (Inr u, s')"
    unfolding NormalizeLabeld_body_def bind_Inr_iff by auto
  from g have s1: "s1 = s" "d < length (recs s)" "map_of (recs s ! d) key = Some label"
    by (auto simp: getitem_Inr)
  from a s1 obtain r c where r: "base_ref label = Some r" "r < length (arrays s)"
    "cast_of E label (arrays s ! r) (value self) = Inr c"
    "s2 = s\<lparr>arrays := (arrays s)[r := binarized c (arrays s ! r)]\<rparr>"
    by (auto simp: assign_positive_Inr)
  from w r s1 have "s' = s2"
    by (auto simp: setitem_eq update_triv split: if_splits)
  with s1 r show "\<exists>label r c. d < length (recs s) \<and> map_of (recs s ! d) key = Some label \<and>
        base_ref label = Some r \<and> r < length (arrays s) \<and>
        cast_of E label (arrays s ! r) (value self) = Inr c \<and>
        s' = s\<lparr>arrays := (arrays s)[r := binarized c (arrays s ! r)]\<rparr>"
    by blast
next
  assume "\<exists>label r c. d < length (recs s) \<and> map_of (recs s ! d) key = Some label \<and>
        base_ref label = Some r \<and> r < length (arrays s) \<and>
        cast_of E label (arrays s ! r) (value self) = Inr c \<and>
        s' = s\<lparr>arrays := (arrays s)[r := binarized c (arrays s ! r)]\<rparr>"
  then obtain label r c where h: "d < length (recs s)" "map_of (recs s ! d) key = Some label"
        "base_ref label = Some r" "r < length (arrays s)"
        "cast_of E label (arrays s ! r) (value self) = Inr c"
        "s' = s\<lparr>arrays := (arrays s)[r := binarized c (arrays s ! r)]\<rparr>"
    by blast
  have g: "getitem d key s = (Inr label, s)" using h by (simp add: getitem_Inr)
  have a: "assign_positive E (value self) label s = (Inr (), s')"
    using h by (auto simp: assign_positive_Inr)
  have w: "setitem d key label s' = (Inr u, s')"
    using h by (auto simp: setitem_eq update_triv)
  show "NormalizeLabeld_body E self d key s = (Inr u, s')"
    unfolding NormalizeLabeld_body_def bind_Inr_iff using g a w by blast
qed

lemma NormalizeLabeld_body_recs:
  assumes "NormalizeLabeld_body E self d key s = (r, s')"
  shows "recs s' = recs s \<and> dicts s' = dicts s \<and> trace s' = trace s"
proof (cases r)
  case (Inr u)
  with assms show ?thesis by (auto simp: NormalizeLabeld_body_Inr)
next
  case (Inl e)
  note b = assms [unfolded NormalizeLabeld_body_def]
  from b show ?thesis
  proof (cases rule: bind_eq_cases)
    case (fail e)
    then show ?thesis by (auto dest: getitem_state)
  next
    case (go label s1)
    then have s1: "s1 = s" by (auto dest: getitem_state)
    from go(2) show ?thesis
    proof (cases rule: bind_eq_cases)
      case (fail e)
      then show ?thesis using assign_positive_recs s1 by blast
    next
      case (go u s2)
      from go(2) Inl have "s' = s2" by (auto simp: setitem_eq split: if_splits)
      with go(1) s1 show ?thesis using assign_positive_recs by blast
    qed
  qed
qed

lemma NormalizeLabeld_body_missing:
  "d < length (recs s) \<Longrightarrow> map_of (recs s ! d) k = None \<Longrightarrow>
   NormalizeLabeld_body E self d k s = (Inl (KeyError k), s)"
  by (simp add: NormalizeLabeld_body_def bind_def getitem_def nth_opt_def)

text \<open>
  The loop returns exactly when \<open>fills\<close> has an answer, and then the arrays are the
  \<open>filled\<close> ones. The store of before is \<open>st\<close> with the arrays \<open>filled K0 as\<close>.
\<close>

lemma NormalizeLabeld_loop_Inr:
  assumes "arrays s = filled K0 as" and "d < length (recs s)"
  shows "NormalizeLabeld_loop E self d ks s = (Inr u, s') \<longleftrightarrow>
     (\<exists>K. fills E (value self) (recs s ! d) as ks K0 = Some K \<and> s' = s\<lparr>arrays := filled K as\<rparr>)"
  using assms
proof (induction ks arbitrary: s K0 s')
  case Nil
  then show ?case by auto
next
  case (Cons key ks)
  let ?v = "value self"
  let ?al = "recs s ! d"
  show ?case
  proof
    assume "NormalizeLabeld_loop E self d (key # ks) s = (Inr u, s')"
    then obtain s1 where
      b: "NormalizeLabeld_body E self d key s = (Inr (), s1)" and
      l: "NormalizeLabeld_loop E self d ks s1 = (Inr u, s')"
      by (auto simp: bind_Inr_iff)
    from b obtain label r c where h: "map_of ?al key = Some label"
        "base_ref label = Some r" "r < length (arrays s)"
        "cast_of E label (arrays s ! r) ?v = Inr c"
        "s1 = s\<lparr>arrays := (arrays s)[r := binarized c (arrays s ! r)]\<rparr>"
      unfolding NormalizeLabeld_body_Inr by blast
    from h(3) Cons.prems(1) have rl: "r < length as" by simp
    let ?K1 = "K0(r \<mapsto> (case K0 r of None \<Rightarrow> c | Some c0 \<Rightarrow> binarize c c0))"
    have a1: "arrays s1 = filled ?K1 as"
      using h(5) Cons.prems(1) filled_update [OF rl, of K0 c] by simp
    have r1: "recs s1 = recs s" using h(5) by simp
    have d1: "d < length (recs s1)" using Cons.prems(2) r1 by simp
    from l obtain K where
      K: "fills E ?v ?al as ks ?K1 = Some K" "s' = s1\<lparr>arrays := filled K as\<rparr>"
      unfolding Cons.IH [OF a1 d1, of s'] r1 by blast
    have c: "cast_of E label (as ! r) ?v = Inr c"
      using h(4) Cons.prems(1) rl by simp
    have "fills E ?v ?al as (key # ks) K0 = Some K"
      using h(1,2) rl c K(1) by simp
    moreover have "s' = s\<lparr>arrays := filled K as\<rparr>" using K(2) h(5) by simp
    ultimately show "\<exists>K. fills E ?v ?al as (key # ks) K0 = Some K \<and> s' = s\<lparr>arrays := filled K as\<rparr>"
      by blast
  next
    assume "\<exists>K. fills E ?v ?al as (key # ks) K0 = Some K \<and> s' = s\<lparr>arrays := filled K as\<rparr>"
    then obtain K where K: "fills E ?v ?al as (key # ks) K0 = Some K"
      and s': "s' = s\<lparr>arrays := filled K as\<rparr>" by blast
    from K obtain label r c where h: "map_of ?al key = Some label" "base_ref label = Some r"
      "r < length as" "cast_of E label (as ! r) ?v = Inr c"
      "fills E ?v ?al as ks (K0(r \<mapsto> (case K0 r of None \<Rightarrow> c | Some c0 \<Rightarrow> binarize c c0))) = Some K"
      by (auto split: option.splits if_splits sum.splits)
    let ?K1 = "K0(r \<mapsto> (case K0 r of None \<Rightarrow> c | Some c0 \<Rightarrow> binarize c c0))"
    let ?s1 = "s\<lparr>arrays := (arrays s)[r := binarized c (arrays s ! r)]\<rparr>"
    have rl: "r < length (arrays s)" using h(3) Cons.prems(1) by simp
    have c: "cast_of E label (arrays s ! r) ?v = Inr c"
      using h(3,4) Cons.prems(1) by simp
    have b: "NormalizeLabeld_body E self d key s = (Inr (), ?s1)"
      unfolding NormalizeLabeld_body_Inr using h(1,2) rl c Cons.prems(2) by blast
    have a1: "arrays ?s1 = filled ?K1 as"
      using Cons.prems(1) filled_update [OF h(3), of K0 c] by simp
    have d1: "d < length (recs ?s1)" using Cons.prems(2) by simp
    have "NormalizeLabeld_loop E self d ks ?s1 = (Inr u, ?s1\<lparr>arrays := filled K as\<rparr>)"
      unfolding Cons.IH [OF a1 d1, of "?s1\<lparr>arrays := filled K as\<rparr>"] using h(5) by auto
    with b show "NormalizeLabeld_loop E self d (key # ks) s = (Inr u, s')"
      by (simp add: bind_def s')
  qed
qed

lemma NormalizeLabeld_loop_recs:
  "NormalizeLabeld_loop E self d ks s = (r, s') \<Longrightarrow>
     recs s' = recs s \<and> dicts s' = dicts s \<and> trace s' = trace s"
proof (induction ks arbitrary: s)
  case Nil
  then show ?case by simp
next
  case (Cons key ks)
  from Cons.prems have "bind (NormalizeLabeld_body E self d key) (\<lambda>_. NormalizeLabeld_loop E self d ks) s = (r, s')"
    by simp
  then show ?case
  proof (cases rule: bind_eq_cases)
    case (fail e)
    then show ?thesis using NormalizeLabeld_body_recs by blast
  next
    case (go u s1)
    from NormalizeLabeld_body_recs [OF go(1)] Cons.IH [OF go(2)] show ?thesis by simp
  qed
qed

lemma NormalizeLabeld_loop_append:
  "NormalizeLabeld_loop E self d (xs @ ys) =
     bind (NormalizeLabeld_loop E self d xs) (\<lambda>_. NormalizeLabeld_loop E self d ys)"
  by (induction xs) (simp_all add: bind_assoc)

lemma NormalizeLabeld_loop_flag [simp]:
  "NormalizeLabeld_loop E (nself\<lparr>allow_missing_keysn := flag\<rparr>) d ks = NormalizeLabeld_loop E nself d ks"
proof (induction ks)
  case Nil
  show ?case by (intro ext) simp
next
  case (Cons k ks)
  have "NormalizeLabeld_body E (nself\<lparr>allow_missing_keysn := flag\<rparr>) d k = NormalizeLabeld_body E nself d k"
    by (intro ext) (simp add: NormalizeLabeld_body_def)
  then show ?case by (intro ext) (simp add: Cons)
qed

lemma NormalizeLabeld_call_flag [simp]:
  "NormalizeLabeld_call E (nself\<lparr>allow_missing_keysn := flag\<rparr>) = NormalizeLabeld_call E nself"
  by (intro ext) (simp add: NormalizeLabeld_call_def)

lemma NormalizeLabeld_call_Inr:
  assumes "dict_at s data = Some al"
  shows "NormalizeLabeld_call E self data s = (Inr d', s') \<longleftrightarrow>
     d' = Rec (length (recs s)) \<and>
     (\<exists>K. fills E (value self) al (arrays s) (keysn self) (\<lambda>r. None) = Some K \<and>
          s' = s\<lparr>recs := recs s @ [al], arrays := filled K (arrays s)\<rparr>)"
proof -
  let ?s0 = "s\<lparr>recs := recs s @ [al]\<rparr>"
  have l: "NormalizeLabeld_loop E self (length (recs s)) (keysn self) ?s0 = (Inr u, s') \<longleftrightarrow>
     (\<exists>K. fills E (value self) al (arrays s) (keysn self) (\<lambda>r. None) = Some K \<and>
          s' = ?s0\<lparr>arrays := filled K (arrays s)\<rparr>)" for u
    using NormalizeLabeld_loop_Inr [of ?s0 "\<lambda>r. None" "arrays s" "length (recs s)" E self "keysn self" u s']
    by simp
  show ?thesis
    unfolding NormalizeLabeld_call_def bind_Inr_iff dict_copy_Inr using assms l
    by auto
qed

lemma NormalizeLabeld_call_frame:
  assumes "dict_at s data = Some al" and "NormalizeLabeld_call E nself data s = (r, s')"
  shows "recs s' = recs s @ [al]" and "dicts s' = dicts s" and "trace s' = trace s"
    and "r = Inr d' \<Longrightarrow> d' = Rec (length (recs s))"
proof -
  let ?d = "length (recs s)"
  let ?s0 = "s\<lparr>recs := recs s @ [al]\<rparr>"
  from assms(2) have c: "bind (NormalizeLabeld_loop E nself ?d (keysn nself)) (\<lambda>_. ret (Rec ?d)) ?s0 = (r, s')"
    unfolding NormalizeLabeld_call_def using dict_copy_eq [OF assms(1)] by (simp add: bind_def)
  from c obtain r0 where l: "NormalizeLabeld_loop E nself ?d (keysn nself) ?s0 = (r0, s')"
    and r: "\<And>d'. r = Inr d' \<Longrightarrow> d' = Rec ?d"
    by (cases rule: bind_eq_cases) auto
  from NormalizeLabeld_loop_recs [OF l]
  show "recs s' = recs s @ [al]" "dicts s' = dicts s" "trace s' = trace s" by simp_all
  show "r = Inr d' \<Longrightarrow> d' = Rec (length (recs s))" by (rule r)
qed

lemma NormalizeLabeld_call_missing:
  assumes d: "dict_at s data = Some al" and k: "map_of al k = None"
    and ks: "keysn nself = ks1 @ k # ks2"
    and l: "NormalizeLabeld_loop E nself (length (recs s)) ks1
              (s\<lparr>recs := recs s @ [al]\<rparr>) = (Inr (), s1)"
  shows "NormalizeLabeld_call E nself data s = (Inl (KeyError k), s1)"
proof -
  let ?d = "length (recs s)"
  let ?s0 = "s\<lparr>recs := recs s @ [al]\<rparr>"
  from NormalizeLabeld_loop_recs [OF l] have r1: "recs s1 = recs ?s0" by simp
  have k1: "map_of (recs s1 ! ?d) k = None" "?d < length (recs s1)"
    using k r1 by simp_all
  have "NormalizeLabeld_loop E nself ?d (keysn nself) ?s0 = (Inl (KeyError k), s1)"
    unfolding ks NormalizeLabeld_loop_append
    using l NormalizeLabeld_body_missing [OF k1(2,1)]
    by (simp add: bind_def)
  then show ?thesis
    unfolding NormalizeLabeld_call_def using dict_copy_eq [OF d] by (simp add: bind_def)
qed

lemma fills_needs:
  "fills E v al as ks K0 = Some K \<Longrightarrow> k \<in> set ks \<Longrightarrow> map_of al k \<noteq> None"
  by (induction ks arbitrary: K0) (auto split: option.splits if_splits sum.splits)

lemma NormalizeLabeld_call_never:
  assumes d: "dict_at s data = Some al" and k: "map_of al k = None"
    and ks: "k \<in> set (keysn nself)"
  shows "NormalizeLabeld_call E nself data s \<noteq> (Inr d', s')"
  using fills_needs [OF _ ks, of E _ al] k
  by (auto simp: NormalizeLabeld_call_Inr [OF d])


lemma trunc_half [simp]: "trunc (1 / 2) = 0"
proof -
  have "\<lfloor>(1::rat) / 2\<rfloor> = 0" by (rule floor_unique) simp_all
  then show ?thesis by (simp add: trunc_def)
qed

lemma cast_of_VArr:
  "cast_of E (VArr r) a v = Inr c \<longleftrightarrow> writeable a \<and> np_cast E (dtype a) v = Inr c"
  by (simp add: cast_of_def)

lemma fills_total:
  assumes "\<forall>k\<in>set ks. \<exists>r c. map_of al k = Some (VArr r) \<and> r < length as \<and>
             cast_of E (VArr r) (as ! r) v = Inr c"
  shows "\<exists>K. fills E v al as ks K0 = Some K"
  using assms by (induction ks arbitrary: K0) auto

lemma fills_arrays:
  assumes "fills E v al as ks K0 = Some K"
    and "\<forall>k\<in>set ks. \<exists>r. map_of al k = Some (VArr r)"
    and "\<forall>r c0. K0 r = Some c0 \<longrightarrow> cast_of E (VArr r) (as ! r) v = Inr c0"
  shows "(\<forall>r c0. K r = Some c0 \<longrightarrow> cast_of E (VArr r) (as ! r) v = Inr c0) \<and>
         (\<forall>k\<in>set ks. \<forall>r. map_of al k = Some (VArr r) \<longrightarrow> r < length as \<and> K r \<noteq> None) \<and>
         (\<forall>r. K0 r \<noteq> None \<longrightarrow> K r \<noteq> None)"
  using assms
proof (induction ks arbitrary: K0)
  case Nil
  then show ?case by simp
next
  case (Cons k ks)
  from Cons.prems(2) obtain r where r: "map_of al k = Some (VArr r)" by auto
  from Cons.prems(1) r obtain c where rl: "r < length as"
    and c: "cast_of E (VArr r) (as ! r) v = Inr c"
    and f: "fills E v al as ks (K0(r \<mapsto> (case K0 r of None \<Rightarrow> c | Some c0 \<Rightarrow> binarize c c0))) = Some K"
    by (auto split: if_splits sum.splits)
  let ?K1 = "K0(r \<mapsto> (case K0 r of None \<Rightarrow> c | Some c0 \<Rightarrow> binarize c c0))"
  have same: "(case K0 r of None \<Rightarrow> c | Some c0 \<Rightarrow> binarize c c0) = c"
  proof (cases "K0 r")
    case None
    then show ?thesis by simp
  next
    case (Some c0)
    with Cons.prems(3) c have "c0 = c" by auto
    with Some show ?thesis by (simp add: binarize_def)
  qed
  have inv: "\<forall>r' c0. ?K1 r' = Some c0 \<longrightarrow> cast_of E (VArr r') (as ! r') v = Inr c0"
  proof (intro allI impI)
    fix r' c0 assume h: "?K1 r' = Some c0"
    show "cast_of E (VArr r') (as ! r') v = Inr c0"
    proof (cases "r' = r")
      case True
      with h same have "c0 = c" by simp
      with c True show ?thesis by (simp add: cast_of_def)
    next
      case False
      with h have "K0 r' = Some c0" by simp
      with Cons.prems(3) show ?thesis by blast
    qed
  qed
  have rest: "\<forall>k\<in>set ks. \<exists>r. map_of al k = Some (VArr r)" using Cons.prems(2) by simp
  note ih = Cons.IH [OF f rest inv]
  from ih have 1: "\<forall>r c0. K r = Some c0 \<longrightarrow> cast_of E (VArr r) (as ! r) v = Inr c0" by blast
  from ih have 2: "\<forall>k\<in>set ks. \<forall>r. map_of al k = Some (VArr r) \<longrightarrow> r < length as \<and> K r \<noteq> None"
    by blast
  from ih have 3: "\<forall>r'. ?K1 r' \<noteq> None \<longrightarrow> K r' \<noteq> None" by blast
  from 3 have kr: "K r \<noteq> None" by simp
  from 3 have 4: "\<forall>r'. K0 r' \<noteq> None \<longrightarrow> K r' \<noteq> None" by (auto split: if_splits)
  from 1 2 4 kr rl r show ?case by auto
qed
section \<open>What the loaders leave alone\<close>

text \<open>
  The relation between the store before and after a stretch of a loader's loop, whatever
  its outcome: other copies, arrays, bindings to path strings and bindings outside the
  keys at work stay.
\<close>

lemma frame0_refl [simp]: "frame0 K d s s"
  unfolding frame0_def by auto

lemma frame0_trans: "frame0 K d s s1 \<Longrightarrow> frame0 K d s1 s2 \<Longrightarrow> frame0 K d s s2"
  unfolding frame0_def by auto

lemma frame0_bind:
  assumes "bind m f s = (r, s')"
    and "\<And>r1 s1. m s = (r1, s1) \<Longrightarrow> frame0 K d s s1"
    and "\<And>x s1. m s = (Inr x, s1) \<Longrightarrow> f x s1 = (r, s') \<Longrightarrow> frame0 K d s1 s'"
  shows "frame0 K d s s'"
  using assms(1)
proof (cases rule: bind_eq_cases)
  case (fail e)
  then show ?thesis using assms(2) by blast
next
  case (go x s1)
  then show ?thesis using assms(2,3) frame0_trans by blast
qed

lemma frame0_setdefault: "setdefault d key s = (r, s1) \<Longrightarrow> frame0 K d s s1"
  unfolding setdefault_eq frame0_def
  by (auto split: if_splits option.splits simp: update_conv')

lemma frame0_meta_setitem: "meta_setitem md name v s = (r, s1) \<Longrightarrow> frame0 K d s s1"
  by (cases r) (auto dest: meta_setitem_Inl simp: meta_setitem_Inr frame0_def)

lemma frame0_MetaTensor_new: "MetaTensor_new E x md s = (r, s1) \<Longrightarrow> frame0 K d s s1"
  by (cases r) (auto dest: MetaTensor_new_Inl simp: MetaTensor_new_Inr frame0_def)

lemma frame0_setitem:
  "setitem d key v s = (r, s1) \<Longrightarrow> \<forall>p. map_of (recs s ! d) key \<noteq> Some (VStr p) \<Longrightarrow> key \<in> K \<Longrightarrow>
   frame0 K d s s1"
  unfolding setitem_eq frame0_def
  by (auto split: if_splits simp: update_conv')

lemma to_meta_tensor_eq:
  "to_meta_tensor E d key mk =
     bind (setdefault d mk) (\<lambda>meta_dict.
     bind (getitem d key) (\<lambda>v.
     bind (shape_of v) (\<lambda>sh.
     bind (meta_setitem meta_dict ''spatial_shape'' (VTuple (butlast sh))) (\<lambda>_.
     bind (meta_setitem meta_dict ''original_channel_dim'' (VInt (- 1))) (\<lambda>_.
     bind (meta_setitem meta_dict ''original_affine'' VNone) (\<lambda>_.
     bind (getitem d key) (\<lambda>image_np.
     bind (MetaTensor_new E image_np meta_dict) (\<lambda>t.
     setitem d key t))))))))"
  by (simp add: to_meta_tensor_def)

lemma frame0_to_meta_tensor:
  assumes "to_meta_tensor E d key mk s = (r, s')" and K: "key \<in> K"
  shows "frame0 K d s s'"
proof -
  note b = assms(1) [unfolded to_meta_tensor_eq]
  show ?thesis
  proof (rule frame0_bind [OF b], erule frame0_setdefault)
    fix md s1 assume sd: "setdefault d mk s = (Inr md, s1)"
      and b1: "bind (getitem d key) (\<lambda>v.
     bind (shape_of v) (\<lambda>sh.
     bind (meta_setitem md ''spatial_shape'' (VTuple (butlast sh))) (\<lambda>_.
     bind (meta_setitem md ''original_channel_dim'' (VInt (- 1))) (\<lambda>_.
     bind (meta_setitem md ''original_affine'' VNone) (\<lambda>_.
     bind (getitem d key) (\<lambda>image_np.
     bind (MetaTensor_new E image_np md) (\<lambda>t.
     setitem d key t))))))) s1 = (r, s')"
    show "frame0 K d s1 s'"
    proof (rule frame0_bind [OF b1])
      fix r1 s2 assume "getitem d key s1 = (r1, s2)"
      then show "frame0 K d s1 s2" by (auto dest: getitem_state)
    next
      fix v s2 assume g: "getitem d key s1 = (Inr v, s2)"
        and b2: "bind (shape_of v) (\<lambda>sh.
     bind (meta_setitem md ''spatial_shape'' (VTuple (butlast sh))) (\<lambda>_.
     bind (meta_setitem md ''original_channel_dim'' (VInt (- 1))) (\<lambda>_.
     bind (meta_setitem md ''original_affine'' VNone) (\<lambda>_.
     bind (getitem d key) (\<lambda>image_np.
     bind (MetaTensor_new E image_np md) (\<lambda>t.
     setitem d key t)))))) s2 = (r, s')"
      from g have s2: "s2 = s1" "map_of (recs s1 ! d) key = Some v"
        by (auto simp: getitem_Inr)
      show "frame0 K d s2 s'"
      proof (rule frame0_bind [OF b2])
        fix r1 s3 assume "shape_of v s2 = (r1, s3)"
        then show "frame0 K d s2 s3" by (auto dest: shape_of_state)
      next
        fix sh s3 assume sh: "shape_of v s2 = (Inr sh, s3)"
          and b3: "bind (meta_setitem md ''spatial_shape'' (VTuple (butlast sh))) (\<lambda>_.
     bind (meta_setitem md ''original_channel_dim'' (VInt (- 1))) (\<lambda>_.
     bind (meta_setitem md ''original_affine'' VNone) (\<lambda>_.
     bind (getitem d key) (\<lambda>image_np.
     bind (MetaTensor_new E image_np md) (\<lambda>t.
     setitem d key t))))) s3 = (r, s')"
        from sh have s3: "s3 = s2" and nstr: "\<forall>p. v \<noteq> VStr p"
          by (auto simp: shape_of_Inr)
        show "frame0 K d s3 s'"
        proof (rule frame0_bind [OF b3], erule frame0_meta_setitem)
          fix x s4 assume m1: "meta_setitem md ''spatial_shape'' (VTuple (butlast sh)) s3 = (Inr x, s4)"
            and b4: "bind (meta_setitem md ''original_channel_dim'' (VInt (- 1))) (\<lambda>_.
     bind (meta_setitem md ''original_affine'' VNone) (\<lambda>_.
     bind (getitem d key) (\<lambda>image_np.
     bind (MetaTensor_new E image_np md) (\<lambda>t.
     setitem d key t)))) s4 = (r, s')"
          have r4: "recs s4 = recs s1" using m1 s3 s2 by (auto simp: meta_setitem_Inr)
          show "frame0 K d s4 s'"
          proof (rule frame0_bind [OF b4], erule frame0_meta_setitem)
            fix x s5 assume m2: "meta_setitem md ''original_channel_dim'' (VInt (- 1)) s4 = (Inr x, s5)"
              and b5: "bind (meta_setitem md ''original_affine'' VNone) (\<lambda>_.
     bind (getitem d key) (\<lambda>image_np.
     bind (MetaTensor_new E image_np md) (\<lambda>t.
     setitem d key t))) s5 = (r, s')"
            have r5: "recs s5 = recs s1" using m2 r4 by (auto simp: meta_setitem_Inr)
            show "frame0 K d s5 s'"
            proof (rule frame0_bind [OF b5], erule frame0_meta_setitem)
              fix x s6 assume m3: "meta_setitem md ''original_affine'' VNone s5 = (Inr x, s6)"
                and b6: "bind (getitem d key) (\<lambda>image_np.
                    bind (MetaTensor_new E image_np md) (\<lambda>t.
                    setitem d key t)) s6 = (r, s')"
              have r6: "recs s6 = recs s1" using m3 r5 by (auto simp: meta_setitem_Inr)
              show "frame0 K d s6 s'"
              proof (rule frame0_bind [OF b6])
                fix r1 s7 assume "getitem d key s6 = (r1, s7)"
                then show "frame0 K d s6 s7" by (auto dest: getitem_state)
              next
                fix image_np s7 assume g2: "getitem d key s6 = (Inr image_np, s7)"
                  and b7: "bind (MetaTensor_new E image_np md) (\<lambda>t. setitem d key t) s7 = (r, s')"
                from g2 have s7: "s7 = s6" by (auto simp: getitem_Inr)
                show "frame0 K d s7 s'"
                proof (rule frame0_bind [OF b7], erule frame0_MetaTensor_new)
                  fix t s8 assume c: "MetaTensor_new E image_np md s7 = (Inr t, s8)"
                    and w: "setitem d key t s8 = (r, s')"
                  from c have "recs s8 = recs s7" by (auto simp: MetaTensor_new_Inr)
                  with s7 r6 s2 nstr K show "frame0 K d s8 s'"
                    by (intro frame0_setitem [OF w]) auto
                qed
              qed
            qed
          qed
        qed
      qed
    qed
  qed
qed

lemma frame0_frame: "frame0 K d s s' \<Longrightarrow> frame K d s s'"
  unfolding frame_def frame0_def by (auto intro: exI [of _ "[]"])

lemma frame_refl [simp]: "frame K d s s"
  by (simp add: frame0_frame)

lemma frame_trans: "frame K d s s1 \<Longrightarrow> frame K d s1 s2 \<Longrightarrow> frame K d s s2"
  unfolding frame_def frame0_def
  apply (elim conjE exE)
  subgoal for ps ps'
    by (rule exI [of _ "ps @ ps'"]) auto
  done

lemma frame_trace: "frame K d s (s\<lparr>trace := trace s @ [ImageOpen p]\<rparr>)"
  unfolding frame_def frame0_def by (auto intro: exI [of _ "[p]"])

lemma frame_strings:
  "frame K d s s' \<Longrightarrow> map_of (recs s ! d) k = Some (VStr p) \<Longrightarrow>
   map_of (recs s' ! d) k = Some (VStr p)"
  by (auto simp: frame_def frame0_def)

lemma frame0_strings:
  "frame0 K d s s' \<Longrightarrow> map_of (recs s ! d) k = Some (VStr p) \<Longrightarrow>
   map_of (recs s' ! d) k = Some (VStr p)"
  by (auto simp: frame0_def)

lemma frame_other:
  "frame K d s s' \<Longrightarrow> i < length (recs s) \<Longrightarrow> i \<noteq> d \<Longrightarrow>
   i < length (recs s') \<and> recs s' ! i = recs s ! i"
  by (auto simp: frame_def frame0_def)

lemma frame_kept:
  "frame K d s s' \<Longrightarrow> k \<notin> K \<Longrightarrow> map_of (recs s ! d) k = Some v \<Longrightarrow>
   map_of (recs s' ! d) k = Some v"
  by (auto simp: frame_def frame0_def)

lemma frame_length: "frame K d s s' \<Longrightarrow> length (recs s') = length (recs s)"
  by (auto simp: frame_def frame0_def)

lemma frame_no_default: "frame K d s s' \<Longrightarrow> \<not> default_loader_invoked s s'"
  by (auto simp: frame_def default_loader_invoked_def list_ex_iff is_default_loader_def)

text \<open>
  Which dictionaries the conversion block can write into, whatever its outcome: only the
  one found under the metadata key, and only when the key holds an array or a tensor.
\<close>

lemma touch_bind:
  assumes "bind m f s = (r, s')"
    and "\<And>r1 s1. m s = (r1, s1) \<Longrightarrow>
           length (dicts s1) = length (dicts s) \<and> (\<forall>p. p \<noteq> m0 \<longrightarrow> dicts s1 ! p = dicts s ! p)"
    and "\<And>x s1. m s = (Inr x, s1) \<Longrightarrow> f x s1 = (r, s') \<Longrightarrow>
           length (dicts s') = length (dicts s1) \<and> (\<forall>p. p \<noteq> m0 \<longrightarrow> dicts s' ! p = dicts s1 ! p)"
  shows "length (dicts s') = length (dicts s) \<and> (\<forall>p. p \<noteq> m0 \<longrightarrow> dicts s' ! p = dicts s ! p)"
  using assms(1)
proof (cases rule: bind_eq_cases)
  case (fail e)
  then show ?thesis using assms(2) by blast
next
  case (go x s1)
  from assms(2) [OF go(1)] assms(3) [OF go] show ?thesis by simp
qed

lemma touch_meta_setitem:
  "meta_setitem md name v s = (r, s1) \<Longrightarrow> md = VDict m0 \<or> (\<forall>m. md \<noteq> VDict m) \<Longrightarrow>
   length (dicts s1) = length (dicts s) \<and> (\<forall>p. p \<noteq> m0 \<longrightarrow> dicts s1 ! p = dicts s ! p)"
  by (cases r) (auto dest: meta_setitem_Inl simp: meta_setitem_Inr)

lemma touch_MetaTensor_new:
  "MetaTensor_new E x md s = (r, s1) \<Longrightarrow> md = VDict m0 \<or> (\<forall>m. md \<noteq> VDict m) \<Longrightarrow>
   length (dicts s1) = length (dicts s) \<and> (\<forall>p. p \<noteq> m0 \<longrightarrow> dicts s1 ! p = dicts s ! p)"
  by (cases r) (auto dest: MetaTensor_new_Inl simp: MetaTensor_new_Inr)

lemma touch_same:
  "dicts s1 = dicts s \<Longrightarrow>
   length (dicts s1) = length (dicts s) \<and> (\<forall>p. p \<noteq> m0 \<longrightarrow> dicts s1 ! p = dicts s ! p)"
  by simp

lemma to_meta_tensor_tail_dicts:
  assumes "bind (meta_setitem md n1 v1) (\<lambda>_.
     bind (meta_setitem md n2 v2) (\<lambda>_.
     bind (meta_setitem md n3 v3) (\<lambda>_.
     bind (getitem d key) (\<lambda>image_np.
     bind (MetaTensor_new E image_np md) (\<lambda>t.
     setitem d key t))))) s = (r, s')"
    and md: "md = VDict m0 \<or> (\<forall>m. md \<noteq> VDict m)"
  shows "length (dicts s') = length (dicts s) \<and> (\<forall>p. p \<noteq> m0 \<longrightarrow> dicts s' ! p = dicts s ! p)"
  apply (rule touch_bind [OF assms(1)])
   apply (erule touch_meta_setitem [OF _ md])
  apply (erule touch_bind)
   apply (erule touch_meta_setitem [OF _ md])
  apply (erule touch_bind)
   apply (erule touch_meta_setitem [OF _ md])
  apply (erule touch_bind)
   apply (rule touch_same, drule getitem_state, simp)
  apply (erule touch_bind)
   apply (erule touch_MetaTensor_new [OF _ md])
  apply (rule touch_same)
  apply (auto simp: setitem_eq split: if_splits)
  done

lemma to_meta_tensor_dicts:
  assumes t: "to_meta_tensor E d key mk s = (r, s')" and p: "p < length (dicts s)"
    and ch: "dicts s' ! p \<noteq> dicts s ! p"
  shows "map_of (recs s ! d) mk = Some (VDict p) \<and>
         (\<exists>v. map_of (recs s ! d) key = Some v \<and> base_ref v \<noteq> None)"
proof -
  note b = t [unfolded to_meta_tensor_eq]
  from b show ?thesis
  proof (cases rule: bind_eq_cases)
    case (fail e)
    then have "dicts s' = dicts s"
      by (auto simp: setdefault_eq split: if_splits option.splits)
    with ch show ?thesis by simp
  next
    case (go md s1)
    from go(1) have d: "d < length (recs s)"
      by (auto simp: setdefault_eq split: if_splits)
    from go(1) d have old: "dicts s1 ! p = dicts s ! p" "length (dicts s) \<le> length (dicts s1)"
      using p by (auto simp: setdefault_eq nth_append split: option.splits)
    have mdc: "map_of (recs s ! d) mk = Some md \<or>
        map_of (recs s ! d) mk = None \<and> md = VDict (length (dicts s))"
      using go(1) d by (auto simp: setdefault_eq split: option.splits)
    have keyv: "map_of (recs s1 ! d) key = Some v \<Longrightarrow> base_ref v \<noteq> None \<Longrightarrow>
        \<exists>v. map_of (recs s ! d) key = Some v \<and> base_ref v \<noteq> None" for v
      using go(1) d by (auto simp: setdefault_eq update_conv' split: option.splits if_splits)
    from go(2) show ?thesis
    proof (cases rule: bind_eq_cases)
      case (fail e)
      then have "s' = s1" by (auto dest: getitem_state)
      with ch old show ?thesis by simp
    next
      case g: (go v s2)
      then have s2: "s2 = s1" "map_of (recs s1 ! d) key = Some v" by (auto simp: getitem_Inr)
      from g(2) show ?thesis
      proof (cases rule: bind_eq_cases)
        case (fail e)
        then have "s' = s1" using s2 by (auto dest: shape_of_state)
        with ch old show ?thesis by simp
      next
        case sh: (go sh s3)
        then have s3: "s3 = s1" and bv: "base_ref v \<noteq> None"
          using s2 by (auto simp: shape_of_Inr)
        consider m0 where "md = VDict m0" | "\<forall>m. md \<noteq> VDict m" by blast
        then show ?thesis
        proof cases
          case 1
          from to_meta_tensor_tail_dicts [OF sh(2) [unfolded s3], of m0] 1
          have "\<forall>q. q \<noteq> m0 \<longrightarrow> dicts s' ! q = dicts s1 ! q" by simp
          with ch old have "p = m0" by auto
          with mdc 1 p have "map_of (recs s ! d) mk = Some (VDict p)" by auto
          with keyv [OF s2(2) bv] show ?thesis by simp
        next
          case 2
          from to_meta_tensor_tail_dicts [OF sh(2) [unfolded s3], of "Suc p"] 2
          have "dicts s' ! p = dicts s1 ! p" by simp
          with ch old show ?thesis by simp
        qed
      qed
    qed
  qed
qed

section \<open>The conversion of one key\<close>

text \<open>
  The block that wraps a value into a tensor, when it returns: what it binds, what it
  writes, and which properties of the store it keeps.
\<close>

lemma map_of_populate:
  "map_of (populate sh al) =
     (map_of al)(''spatial_shape'' \<mapsto> VTuple (butlast sh),
                 ''original_channel_dim'' \<mapsto> VInt (- 1), ''original_affine'' \<mapsto> VNone)"
  by (simp add: populate_def update_conv')

lemma to_meta_tensor_Inr:
  assumes "to_meta_tensor E d key mk s = (Inr u, s')"
  obtains v r m al' where
    "d < length (recs s)" "map_of (recs s ! d) key = Some v" "key \<noteq> mk"
    "base_ref v = Some r" "r < length (arrays s)"
    "map_of (recs s ! d) mk = Some (VDict m) \<and> m < length (dicts s) \<or>
     map_of (recs s ! d) mk = None \<and> m = length (dicts s)"
    "recs s' = (recs s)[d := AList.update key (VMetaTensor v (VDict m))
                              (AList.update mk (VDict m) (recs s ! d))]"
    "MetaTensor_init E (arrays s ! r)
       (populate (shape (arrays s ! r)) (if map_of (recs s ! d) mk = None then [] else dicts s ! m))
     = Inr al'"
    "dicts s' = (if map_of (recs s ! d) mk = None then dicts s @ [al'] else (dicts s)[m := al'])"
    "arrays s' = arrays s" "trace s' = trace s"
proof -
  from assms obtain md s1 v s2 sh s3 s4 s5 s6 image_np s7 t s8 where
    sd: "setdefault d mk s = (Inr md, s1)" and
    g1: "getitem d key s1 = (Inr v, s2)" and
    sh: "shape_of v s2 = (Inr sh, s3)" and
    m1: "meta_setitem md ''spatial_shape'' (VTuple (butlast sh)) s3 = (Inr (), s4)" and
    m2: "meta_setitem md ''original_channel_dim'' (VInt (- 1)) s4 = (Inr (), s5)" and
    m3: "meta_setitem md ''original_affine'' VNone s5 = (Inr (), s6)" and
    g2: "getitem d key s6 = (Inr image_np, s7)" and
    c: "MetaTensor_new E image_np md s7 = (Inr t, s8)" and
    w: "setitem d key t s8 = (Inr u, s')"
    unfolding to_meta_tensor_eq bind_Inr_iff by auto
  from sd have d: "d < length (recs s)"
    by (auto simp: setdefault_eq split: if_splits)
  from g1 have s2: "s2 = s1" and v1: "map_of (recs s1 ! d) key = Some v"
    by (auto simp: getitem_Inr)
  from sh obtain r where s3: "s3 = s1" and r: "base_ref v = Some r" "r < length (arrays s1)"
      "sh = shape (arrays s1 ! r)"
    using s2 by (auto simp: shape_of_Inr)
  from m1 obtain m where md: "md = VDict m" and m: "m < length (dicts s1)"
    and s4: "s4 = s1\<lparr>dicts := (dicts s1)[m := AList.update ''spatial_shape'' (VTuple (butlast sh)) (dicts s1 ! m)]\<rparr>"
    using s3 by (auto simp: meta_setitem_Inr)
  from m2 md m s4 have s5: "s5 = s1\<lparr>dicts := (dicts s1)[m :=
      AList.update ''original_channel_dim'' (VInt (- 1))
        (AList.update ''spatial_shape'' (VTuple (butlast sh)) (dicts s1 ! m))]\<rparr>"
    by (auto simp: meta_setitem_Inr)
  from m3 md m s5 have s6: "s6 = s1\<lparr>dicts := (dicts s1)[m := populate sh (dicts s1 ! m)]\<rparr>"
    by (auto simp: meta_setitem_Inr populate_def)
  from g2 s6 v1 have s7: "s7 = s6" "image_np = v"
    by (auto simp: getitem_Inr)
  from c s7 s6 md m r obtain al' where
    al': "MetaTensor_init E (arrays s1 ! r) (populate sh (dicts s1 ! m)) = Inr al'"
    and t: "t = VMetaTensor v (VDict m)"
    and s8: "s8 = s1\<lparr>dicts := (dicts s1)[m := al']\<rparr>"
    by (auto simp: MetaTensor_new_Inr)
  from w s8 have s': "s' = s1\<lparr>dicts := (dicts s1)[m := al'],
      recs := (recs s1)[d := AList.update key (VMetaTensor v (VDict m)) (recs s1 ! d)]\<rparr>"
    using t by (auto simp: setitem_eq split: if_splits)
  have nk: "key \<noteq> mk"
  proof
    assume "key = mk"
    with sd v1 d md have "v = VDict m"
      by (auto simp: setdefault_eq update_conv' split: option.splits)
    with r show False by simp
  qed
  show thesis
  proof (cases "map_of (recs s ! d) mk")
    case None
    with sd d md have s1: "s1 = s\<lparr>recs := (recs s)[d := AList.update mk (VDict (length (dicts s))) (recs s ! d)],
                    dicts := dicts s @ [[]]\<rparr>" and mm: "m = length (dicts s)"
      by (auto simp: setdefault_eq)
    have v0: "map_of (recs s ! d) key = Some v"
      using v1 nk d by (simp add: s1 update_conv')
    show thesis
    proof (rule that [of v r m al'])
      show "recs s' = (recs s)[d := AList.update key (VMetaTensor v (VDict m))
                              (AList.update mk (VDict m) (recs s ! d))]"
        using d by (simp add: s' s1 mm)
      show "MetaTensor_init E (arrays s ! r)
         (populate (shape (arrays s ! r)) (if map_of (recs s ! d) mk = None then [] else dicts s ! m))
         = Inr al'"
        using al' None r by (simp add: s1 mm)
      show "dicts s' = (if map_of (recs s ! d) mk = None then dicts s @ [al'] else (dicts s)[m := al'])"
        using None by (simp add: s' s1 mm)
    qed (use d v0 nk r None mm in \<open>simp_all add: s' s1\<close>)
  next
    case (Some w)
    with sd d md have s1: "s1 = s" and wm: "w = VDict m"
      by (auto simp: setdefault_eq)
    show thesis
    proof (rule that [of v r m al'])
      show "recs s' = (recs s)[d := AList.update key (VMetaTensor v (VDict m))
                              (AList.update mk (VDict m) (recs s ! d))]"
        using Some wm by (simp add: s' s1 update_triv)
      show "MetaTensor_init E (arrays s ! r)
         (populate (shape (arrays s ! r)) (if map_of (recs s ! d) mk = None then [] else dicts s ! m))
         = Inr al'"
        using al' Some r by (simp add: s1)
      show "dicts s' = (if map_of (recs s ! d) mk = None then dicts s @ [al'] else (dicts s)[m := al'])"
        using Some by (simp add: s' s1)
    qed (use d v1 nk r Some wm m in \<open>simp_all add: s' s1\<close>)
  qed
qed

lemma to_meta_tensor_step:
  assumes "to_meta_tensor E d key mk s = (Inr u, s')"
  obtains v r m where
    "d < length (recs s)" "map_of (recs s ! d) key = Some v" "base_ref v = Some r"
    "r < length (arrays s)" "key \<noteq> mk"
    "map_of (recs s ! d) mk = Some (VDict m) \<and> m < length (dicts s) \<or>
     map_of (recs s ! d) mk = None \<and> m = length (dicts s)"
    "map_of (recs s' ! d) = (map_of (recs s ! d))(mk \<mapsto> VDict m, key \<mapsto> VMetaTensor v (VDict m))"
    "length (dicts s) \<le> length (dicts s')" "m < length (dicts s')"
    "keeps_entries E \<Longrightarrow> populated s' m \<and> shaped s' m r"
    "\<And>m'. m' < length (dicts s) \<Longrightarrow> m' \<noteq> m \<Longrightarrow> dicts s' ! m' = dicts s ! m'"
    "\<And>m'. m' < length (dicts s') \<Longrightarrow> m' = m \<or> m' < length (dicts s)"
    "arrays s' = arrays s" "length (recs s') = length (recs s)"
  using assms
proof (cases rule: to_meta_tensor_Inr)
  case (1 v r m al')
  let ?old = "if map_of (recs s ! d) mk = None then [] else dicts s ! m"
  have ml: "m < length (dicts s')" and at: "dicts s' ! m = al'"
    using 1(6,9) by (auto simp: nth_append)
  have ent: "populated s' m \<and> shaped s' m r" if "keeps_entries E"
  proof -
    from that 1(8) have "\<forall>j\<in>three. map_of al' j = map_of (populate (shape (arrays s ! r)) ?old) j"
      unfolding keeps_entries_def by blast
    then show ?thesis
      using ml at 1(10) by (simp add: populated_def shaped_def three_def map_of_populate)
  qed
  show ?thesis
  proof (rule that [of v r m])
    show "map_of (recs s' ! d) = (map_of (recs s ! d))(mk \<mapsto> VDict m, key \<mapsto> VMetaTensor v (VDict m))"
      using 1 by (simp add: update_conv')
    show "keeps_entries E \<Longrightarrow> populated s' m \<and> shaped s' m r" by (rule ent)
    show "\<And>m'. m' < length (dicts s) \<Longrightarrow> m' \<noteq> m \<Longrightarrow> dicts s' ! m' = dicts s ! m'"
      using 1(9) by (simp add: nth_append)
    show "\<And>m'. m' < length (dicts s') \<Longrightarrow> m' = m \<or> m' < length (dicts s)"
      using 1(6,9) by (auto split: if_splits)
    show "length (dicts s) \<le> length (dicts s')" using 1(9) by simp
  qed (use 1 ml in simp_all)
qed

text \<open>A key that holds no array at some point of a loop never holds one later.\<close>

lemma to_meta_tensor_no_array:
  assumes "to_meta_tensor E d key mk s = (Inr u, s')"
    and "\<forall>a. map_of (recs s ! d) k \<noteq> Some (VArr a)"
  shows "\<forall>a. map_of (recs s' ! d) k \<noteq> Some (VArr a)"
  using assms(1)
proof (cases rule: to_meta_tensor_step)
  case (1 v r m)
  show ?thesis unfolding 1(7) using assms(2) by auto
qed

lemma to_meta_tensor_key_converted:
  assumes "to_meta_tensor E d key mk s = (Inr u, s')"
  shows "\<forall>a. map_of (recs s' ! d) key \<noteq> Some (VArr a)"
  using assms(1)
proof (cases rule: to_meta_tensor_step)
  case (1 v r m)
  show ?thesis unfolding 1(7) by auto
qed

lemma converted_establish:
  assumes t: "to_meta_tensor E d k mk s = (Inr u, s')" and "map_of (recs s ! d) k = Some (VArr a)"
    and ke: "keeps_entries E"
  shows "\<exists>m. converted s' d k mk a m \<and> map_of (recs s' ! d) k = Some (VMetaTensor (VArr a) (VDict m))
           \<and> shaped s' m a"
  using t
proof (cases rule: to_meta_tensor_step)
  case (1 v r m)
  with assms(2) have v: "v = VArr a" "r = a" by auto
  from 1(10) [OF ke] v have "populated s' m" "shaped s' m a" by simp_all
  moreover have "map_of (recs s' ! d) k = Some (VMetaTensor (VArr a) (VDict m))"
    "map_of (recs s' ! d) mk = Some (VDict m)"
    using 1(5,7) v by simp_all
  ultimately show ?thesis unfolding converted_def by auto
qed

lemma unconverted_step:
  assumes t: "to_meta_tensor E d key mk s = (Inr u, s')" and "map_of (recs s ! d) k = Some (VArr a)"
    and "key \<noteq> k"
  shows "map_of (recs s' ! d) k = Some (VArr a)"
  using t
proof (cases rule: to_meta_tensor_step)
  case (1 v r m)
  from 1(6) assms(2) have "k \<noteq> mk" by auto
  with assms(2,3) show ?thesis unfolding 1(7) by simp
qed

lemma converted_step:
  assumes t: "to_meta_tensor E d key mk' s = (Inr u, s')" and c: "converted s d k mk a m"
    and same: "key = k \<Longrightarrow> mk' = mk" and ke: "keeps_entries E"
  shows "converted s' d k mk a m"
  using t
proof (cases rule: to_meta_tensor_step)
  case (1 v r m')
  from c obtain x where x: "map_of (recs s ! d) k = Some (VMetaTensor x (VDict m))" "base_ref x = Some a"
    and mk: "map_of (recs s ! d) mk = Some (VDict m)" and p: "populated s m"
    unfolding converted_def by blast
  have knmk': "k \<noteq> mk'" using 1(6) x(1) by auto
  have mknkey: "mk \<noteq> key" using 1(2,3) mk by auto
  have m'm: "m' = m" if "mk' = mk" using that 1(6) mk by auto
  have k': "\<exists>x. map_of (recs s' ! d) k = Some (VMetaTensor x (VDict m)) \<and> base_ref x = Some a"
  proof (cases "key = k")
    case True
    with 1(2) x have "v = VMetaTensor x (VDict m)" by simp
    moreover from same [OF True] m'm have "m' = m" by simp
    ultimately show ?thesis using True x(2) unfolding 1(7) by simp
  next
    case False
    with knmk' x show ?thesis unfolding 1(7) by auto
  qed
  have mk'': "map_of (recs s' ! d) mk = Some (VDict m)"
    using mknkey mk m'm unfolding 1(7) by auto
  from p have ml: "m < length (dicts s)" by (simp add: populated_def)
  have "populated s' m"
  proof (cases "m' = m")
    case True
    from 1(10) [OF ke] True show ?thesis by simp
  next
    case False
    from 1(11) [OF ml] False have "dicts s' ! m = dicts s ! m" by simp
    with p ml 1(8) show ?thesis by (simp add: populated_def)
  qed
  with k' mk'' show ?thesis unfolding converted_def by blast
qed

lemma converted_trace [simp]: "converted (st\<lparr>trace := t\<rparr>) d k mk a m = converted st d k mk a m"
  by (simp add: converted_def populated_def)

lemma tensor_kept:
  assumes t: "to_meta_tensor E d key mk s = (Inr u, s')"
    and v: "map_of (recs s ! d) k = Some (VMetaTensor x y)" and ne: "key \<noteq> k"
  shows "map_of (recs s' ! d) k = Some (VMetaTensor x y)"
  using t
proof (cases rule: to_meta_tensor_step)
  case (1 w r m)
  from 1(6) v have "k \<noteq> mk" by auto
  with ne v show ?thesis unfolding 1(7) by simp
qed

lemma stable_inv_init: "recs st ! d = al0 \<Longrightarrow> length (dicts st) = n0 \<Longrightarrow> stable_inv al0 n0 d st"
  by (simp add: stable_inv_def)

lemma stable_inv_trace [simp]: "stable_inv al0 n0 d (st\<lparr>trace := t\<rparr>) = stable_inv al0 n0 d st"
  by (simp add: stable_inv_def)

lemma stable_inv_step:
  assumes t: "to_meta_tensor E d key mk s = (Inr u, s')" and i: "stable_inv al0 n0 d s"
  shows "stable_inv al0 n0 d s'"
  using t
proof (cases rule: to_meta_tensor_step)
  case (1 v r m)
  from i have N: "n0 \<le> length (dicts s)"
    and P: "\<And>j p. map_of al0 j = Some (VStr p) \<Longrightarrow> map_of (recs s ! d) j = Some (VStr p)"
    and F: "\<And>j v. map_of al0 j = None \<Longrightarrow> map_of (recs s ! d) j = Some v \<Longrightarrow> \<exists>m. v = VDict m \<and> n0 \<le> m"
    and S: "\<And>j w. map_of al0 j = Some w \<Longrightarrow>
        map_of (recs s ! d) j = Some w \<or> (\<exists>x y. map_of (recs s ! d) j = Some (VMetaTensor x y))"
    unfolding stable_inv_def by blast+
  have knew: "map_of al0 key \<noteq> None"
  proof
    assume "map_of al0 key = None"
    from F [OF this 1(2)] 1(3) show False by auto
  qed
  have kstr: "map_of al0 key \<noteq> Some (VStr p)" for p
  proof
    assume "map_of al0 key = Some (VStr p)"
    from P [OF this] 1(2,3) show False by auto
  qed
  have N': "n0 \<le> length (dicts s')" using N 1(8) by simp
  have P': "map_of (recs s' ! d) j = Some (VStr p)" if "map_of al0 j = Some (VStr p)" for j p
  proof -
    from that kstr have "j \<noteq> key" by auto
    moreover from P [OF that] 1(6) have "j \<noteq> mk" by auto
    ultimately show ?thesis using P [OF that] unfolding 1(7) by simp
  qed
  have F': "\<exists>m. v' = VDict m \<and> n0 \<le> m" if "map_of al0 j = None" "map_of (recs s' ! d) j = Some v'" for j v'
  proof -
    from that(1) knew have jk: "j \<noteq> key" by auto
    show ?thesis
    proof (cases "j = mk")
      case True
      with that(2) jk have v': "v' = VDict m" unfolding 1(7) by simp
      from 1(6) show ?thesis
      proof
        assume "map_of (recs s ! d) mk = Some (VDict m) \<and> m < length (dicts s)"
        with F [OF that(1)] True v' show ?thesis by auto
      next
        assume "map_of (recs s ! d) mk = None \<and> m = length (dicts s)"
        with N v' show ?thesis by simp
      qed
    next
      case False
      with that(2) jk have "map_of (recs s ! d) j = Some v'" unfolding 1(7) by simp
      from F [OF that(1) this] show ?thesis .
    qed
  qed
  have S': "map_of (recs s' ! d) j = Some w \<or> (\<exists>x y. map_of (recs s' ! d) j = Some (VMetaTensor x y))"
    if "map_of al0 j = Some w" for j w
  proof (cases "j = key")
    case True
    then show ?thesis unfolding 1(7) by simp
  next
    case nk: False
    show ?thesis
    proof (cases "j = mk")
      case True
      from S [OF that] True 1(6) have "map_of (recs s ! d) mk = Some (VDict m)" "w = VDict m"
        by auto
      then show ?thesis using True nk unfolding 1(7) by simp
    next
      case False
      with nk have "map_of (recs s' ! d) j = map_of (recs s ! d) j" unfolding 1(7) by simp
      with S [OF that] show ?thesis by simp
    qed
  qed
  show ?thesis unfolding stable_inv_def using N' P' F' S' by blast
qed

lemma stable_inv_base:
  assumes v: "map_of (recs s ! d) key = Some v" "base_ref v \<noteq> None" and i: "stable_inv al0 n0 d s"
  shows "\<exists>w. map_of al0 key = Some w \<and> \<not> is_path w"
proof (cases "map_of al0 key")
  case None
  with i v(1) obtain m' where "v = VDict m'" unfolding stable_inv_def by blast
  with v(2) show ?thesis by simp
next
  case (Some w)
  have "\<not> is_path w"
  proof
    assume "is_path w"
    then obtain p where "w = VStr p" by (auto simp: is_path_iff)
    with i Some v(1) have "v = VStr p" unfolding stable_inv_def by auto
    with v(2) show False by simp
  qed
  with Some show ?thesis by simp
qed

lemma stable_inv_direct:
  assumes t: "to_meta_tensor E d key mk s = (Inr u, s')" and i: "stable_inv al0 n0 d s"
  shows "\<exists>w. map_of al0 key = Some w \<and> \<not> is_path w"
  using t
proof (cases rule: to_meta_tensor_step)
  case (1 v r m)
  from stable_inv_base [OF 1(2) _ i] 1(3) show ?thesis by simp
qed

lemma stable_inv_array:
  assumes v: "map_of (recs s ! d) key = Some (VArr a)" and i: "stable_inv al0 n0 d s"
  shows "map_of al0 key = Some (VArr a)"
proof (cases "map_of al0 key")
  case None
  with i v show ?thesis unfolding stable_inv_def by blast
next
  case (Some w)
  with i v show ?thesis unfolding stable_inv_def by force
qed

lemma stable_inv_old:
  assumes v: "map_of (recs s ! d) key = Some (VDict m)" "m < n0" and i: "stable_inv al0 n0 d s"
  shows "map_of al0 key = Some (VDict m)"
proof (cases "map_of al0 key")
  case None
  from i have "\<And>j v. map_of al0 j = None \<Longrightarrow> map_of (recs s ! d) j = Some v \<Longrightarrow>
      \<exists>m. v = VDict m \<and> n0 \<le> m"
    unfolding stable_inv_def by blast
  from this [OF None v(1)] v(2) show ?thesis by auto
next
  case (Some w)
  from i have "\<And>j w. map_of al0 j = Some w \<Longrightarrow>
      map_of (recs s ! d) j = Some w \<or> (\<exists>x y. map_of (recs s ! d) j = Some (VMetaTensor x y))"
    unfolding stable_inv_def by blast
  from this [OF Some] v(1) Some show ?thesis by auto
qed

lemma separate_step:
  assumes t: "to_meta_tensor E d key mk s = (Inr u, s')"
    and sep: "separate (recs s ! d) (length (dicts s)) MK" and mk: "mk \<in> MK"
  shows "separate (recs s' ! d) (length (dicts s')) MK"
  using t
proof (cases rule: to_meta_tensor_step)
  case (1 v r m)
  from sep have val: "\<And>mk m. mk \<in> MK \<Longrightarrow> map_of (recs s ! d) mk = Some (VDict m) \<Longrightarrow> m < length (dicts s)"
    and inj: "\<And>mk mk' m. mk \<in> MK \<Longrightarrow> mk' \<in> MK \<Longrightarrow> map_of (recs s ! d) mk = Some (VDict m) \<Longrightarrow>
          map_of (recs s ! d) mk' = Some (VDict m) \<Longrightarrow> mk = mk'"
    unfolding separate_def by blast+
  have old_of: "map_of (recs s ! d) j = Some (VDict n)"
    if "map_of (recs s' ! d) j = Some (VDict n)" "j \<noteq> mk" for j n
    using that unfolding 1(7) by (auto split: if_splits)
  have new_mk: "n = m" if "map_of (recs s' ! d) mk = Some (VDict n)" for n
    using that 1(5) unfolding 1(7) by auto
  have other_ne: "n \<noteq> m" if "j \<in> MK" "j \<noteq> mk" "map_of (recs s ! d) j = Some (VDict n)" for j n
  proof
    assume nm: "n = m"
    from 1(6) show False
    proof
      assume "map_of (recs s ! d) mk = Some (VDict m) \<and> m < length (dicts s)"
      then have "map_of (recs s ! d) mk = Some (VDict m)" by simp
      from inj [OF that(1) mk that(3) [unfolded nm] this] that(2) show False by simp
    next
      assume "map_of (recs s ! d) mk = None \<and> m = length (dicts s)"
      with val [OF that(1,3)] nm show False by simp
    qed
  qed
  have V: "n < length (dicts s')" if "j \<in> MK" "map_of (recs s' ! d) j = Some (VDict n)" for j n
  proof (cases "j = mk")
    case True
    with that(2) new_mk 1(9) show ?thesis by simp
  next
    case False
    from val [OF that(1) old_of [OF that(2) False]] 1(8) show ?thesis by simp
  qed
  have I: "j = j'" if "j \<in> MK" "j' \<in> MK" "map_of (recs s' ! d) j = Some (VDict n)"
    "map_of (recs s' ! d) j' = Some (VDict n)" for j j' n
  proof (cases "j = mk")
    case jm: True
    show ?thesis
    proof (cases "j' = mk")
      case True
      with jm show ?thesis by simp
    next
      case False
      from new_mk that(3) jm have "n = m" by simp
      with other_ne [OF that(2) False old_of [OF that(4) False]] show ?thesis by simp
    qed
  next
    case jm: False
    show ?thesis
    proof (cases "j' = mk")
      case True
      from new_mk that(4) True have "n = m" by simp
      with other_ne [OF that(1) jm old_of [OF that(3) jm]] show ?thesis by simp
    next
      case False
      from inj [OF that(1,2) old_of [OF that(3) jm] old_of [OF that(4) False]] show ?thesis .
    qed
  qed
  show ?thesis unfolding separate_def using V I by blast
qed

lemma shaped_step:
  assumes t: "to_meta_tensor E d key mk' s = (Inr u, s')" and c: "converted s d k mk a m"
    and sh: "shaped s m a"
    and sep: "separate (recs s ! d) (length (dicts s)) MK" and mk: "mk \<in> MK" "mk' \<in> MK"
    and same: "mk' = mk \<Longrightarrow> key = k" and ke: "keeps_entries E"
  shows "shaped s' m a"
  using t
proof (cases rule: to_meta_tensor_step)
  case (1 v r m')
  from c obtain x where x: "map_of (recs s ! d) k = Some (VMetaTensor x (VDict m))" "base_ref x = Some a"
    and mkb: "map_of (recs s ! d) mk = Some (VDict m)" and p: "populated s m"
    unfolding converted_def by blast
  from p have ml: "m < length (dicts s)" by (simp add: populated_def)
  show ?thesis
  proof (cases "m' = m")
    case False
    from 1(11) [OF ml] False have "dicts s' ! m = dicts s ! m" by simp
    with sh 1(13) show ?thesis by (simp add: shaped_def)
  next
    case True
    from 1(6) True ml have "map_of (recs s ! d) mk' = Some (VDict m)" by auto
    with sep mk mkb have "mk' = mk" unfolding separate_def by blast
    from same [OF this] 1(2,3) x have "r = a" by auto
    with 1(10) [OF ke] True show ?thesis by simp
  qed
qed

lemma shaped_trace [simp]: "shaped (st\<lparr>trace := t\<rparr>) m a = shaped st m a"
  by (simp add: shaped_def)

lemma tensor_outcomeI:
  assumes "converted s' d k mk a m" "shaped s' m a" "arrays s' = arrays s"
  shows "tensor_outcome s s' d k a"
  using assms unfolding tensor_outcome_def converted_def populated_def shaped_def by auto

lemma meta_outcomeI:
  assumes c: "converted s' d k mk a m" and o: "stable_inv al (length (dicts s)) d s'"
  shows "meta_outcome s s' al d k mk"
proof -
  from c obtain x where x: "map_of (recs s' ! d) k = Some (VMetaTensor x (VDict m))"
    and mk: "map_of (recs s' ! d) mk = Some (VDict m)" and p: "populated s' m"
    unfolding converted_def by blast
  have "case map_of al mk of None \<Rightarrow> length (dicts s) \<le> m | Some w \<Rightarrow> w = VDict m"
  proof (cases "map_of al mk")
    case None
    from o have "\<And>j v. map_of al j = None \<Longrightarrow> map_of (recs s' ! d) j = Some v \<Longrightarrow>
        \<exists>m. v = VDict m \<and> length (dicts s) \<le> m"
      unfolding stable_inv_def by blast
    from this [OF None mk] None show ?thesis by auto
  next
    case (Some w)
    from o have "\<And>j w. map_of al j = Some w \<Longrightarrow>
        map_of (recs s' ! d) j = Some w \<or> (\<exists>x y. map_of (recs s' ! d) j = Some (VMetaTensor x y))"
      unfolding stable_inv_def by blast
    from this [OF Some] mk Some show ?thesis by auto
  qed
  with x mk p show ?thesis unfolding meta_outcome_def by blast
qed


lemma to_meta_tensor_created:
  assumes "to_meta_tensor E d key mk s = (Inr u, s')"
  shows "created_then_populated E s s' d key mk"
  using assms
proof (cases rule: to_meta_tensor_Inr)
  case (1 v r m al')
  have mk': "map_of (recs s' ! d) mk = Some (VDict m)"
    using 1(1,3) by (simp add: 1(7) update_conv')
  have key': "map_of (recs s' ! d) key = Some (VMetaTensor v (VDict m))"
    using 1(1) by (simp add: 1(7) update_conv')
  show ?thesis
  proof (cases "map_of (recs s ! d) mk")
    case None
    with 1(6) have m: "m = length (dicts s)" by auto
    show ?thesis
      unfolding created_then_populated_def
      apply (rule exI [of _ v], rule exI [of _ r], rule exI [of _ m], rule exI [of _ al'])
      using 1(2,4,5,8,9) None m mk' key' by simp
  next
    case (Some w)
    with 1(6) have m: "w = VDict m" "m < length (dicts s)" by auto
    show ?thesis
      unfolding created_then_populated_def
      apply (rule exI [of _ v], rule exI [of _ r], rule exI [of _ m], rule exI [of _ al'])
      using 1(2,4,5,8,9) Some m mk' key' by simp
  qed
qed
section \<open>The loop of LoadImageTensord\<close>

lemma decodes_iff:
  "decodes E al k \<longleftrightarrow>
     ''np'' \<in> set (injected E) \<and> ''Image'' \<in> set (injected E) \<and>
     (\<exists>p a. map_of al k = Some (VStr p) \<and> Image_open E p = Inr a)"
  by (auto simp: decodes_def split: option.splits val.splits sum.splits)

lemma no_array_if_decodes:
  assumes "list_all (decodes E al) ks" and "j \<in> set ks"
  shows "map_of al j \<noteq> Some (VArr a)"
proof
  assume "map_of al j = Some (VArr a)"
  then have "\<not> decodes E al j" by (simp add: decodes_def)
  with assms show False unfolding list_all_iff by blast
qed

lemma LoadImageTensord_body_cases:
  assumes "LoadImageTensord_body E d key ud s = (r, s')"
  obtains
    (missing) "d < length (recs s)" "map_of (recs s ! d) key = None" "r = Inl (KeyError key)" "s' = s"
  | (dangling) "length (recs s) \<le> d" "r = Inl Dangling" "s' = s"
  | (noname) p n where "d < length (recs s)" "map_of (recs s ! d) key = Some (VStr p)"
      "r = Inl (NameError n)" "s' = s"
      "''np'' \<notin> set (injected E) \<and> n = ''np'' \<or>
       ''np'' \<in> set (injected E) \<and> ''Image'' \<notin> set (injected E) \<and> n = ''Image''"
  | (path) p where "d < length (recs s)" "map_of (recs s ! d) key = Some (VStr p)"
      "''np'' \<in> set (injected E)" "''Image'' \<in> set (injected E)"
      "s' = s\<lparr>trace := trace s @ [ImageOpen p]\<rparr>"
      "case Image_open E p of Inl e \<Rightarrow> r = Inl e | Inr a \<Rightarrow> r = Inr ud"
  | (direct) v r1 where "d < length (recs s)" "map_of (recs s ! d) key = Some v"
      "\<forall>p. v \<noteq> VStr p"
      "to_meta_tensor E d key (key @ ''_'' @ PostFix_meta E) s = (r1, s')"
      "case r1 of Inl e \<Rightarrow> r = Inl e | Inr u \<Rightarrow> r = Inr False"
proof -
  note b = assms [unfolded LoadImageTensord_body_def]
  from b show thesis
  proof (cases rule: bind_eq_cases)
    case (fail e)
    then show ?thesis
      using missing dangling by (auto simp: getitem_Inl split: if_splits)
  next
    case (go v s1)
    then have g: "s1 = s" "d < length (recs s)" "map_of (recs s ! d) key = Some v"
      by (auto simp: getitem_Inr)
    show ?thesis
    proof (cases "\<exists>p. v = VStr p")
      case True
      then obtain p where p: "v = VStr p" by blast
      with go(2) g have io: "bind (image_open E p) (\<lambda>image_np. ret ud) s = (r, s')" by simp
      from io show ?thesis
      proof (cases rule: bind_eq_cases)
        case (fail e)
        then show ?thesis
          using noname [of p "''np''"] noname [of p "''Image''"] path [of p] g p
          by (auto simp: image_open_eq split: if_splits sum.splits)
      next
        case (go a s2)
        then show ?thesis
          using path [of p] g p
          by (auto simp: image_open_eq split: if_splits sum.splits)
      qed
    next
      case False
      with go(2) g have
        "bind (to_meta_tensor E d key (key @ ''_'' @ PostFix_meta E)) (\<lambda>_. ret False) s = (r, s')"
        by (cases v) auto
      then obtain r1 where "to_meta_tensor E d key (key @ ''_'' @ PostFix_meta E) s = (r1, s')"
        "case r1 of Inl e \<Rightarrow> r = Inl e | Inr u \<Rightarrow> r = Inr False"
        by (auto simp: bind_def split: sum.splits prod.splits)
      with g False show ?thesis using direct by blast
    qed
  qed
qed

lemma LoadImageTensord_body_missing:
  "d < length (recs s) \<Longrightarrow> map_of (recs s ! d) k = None \<Longrightarrow>
   LoadImageTensord_body E d k ud s = (Inl (KeyError k), s)"
  by (simp add: LoadImageTensord_body_def bind_def getitem_def nth_opt_def)

lemma LoadImageTensord_body_NameError:
  "d < length (recs s) \<Longrightarrow> map_of (recs s ! d) k = Some (VStr p) \<Longrightarrow> ''np'' \<notin> set (injected E) \<Longrightarrow>
   LoadImageTensord_body E d k ud s = (Inl (NameError ''np''), s)"
  by (simp add: LoadImageTensord_body_def bind_def getitem_def nth_opt_def image_open_def raise_def)

lemma frame_LoadImageTensord_body:
  assumes "LoadImageTensord_body E d key ud s = (r, s')" "key \<in> K"
  shows "frame K d s s'"
  using assms(1)
proof (cases rule: LoadImageTensord_body_cases)
  case (path p)
  then show ?thesis by (simp add: frame_trace)
next
  case (direct v r1)
  then show ?thesis using frame0_to_meta_tensor [OF direct(4) assms(2)] frame0_frame by blast
qed simp_all

lemma frame_LoadImageTensord_loop:
  "LoadImageTensord_loop E d ks ud s = (r, s') \<Longrightarrow> set ks \<subseteq> K \<Longrightarrow> frame K d s s'"
proof (induction ks arbitrary: ud s)
  case Nil
  then show ?case by simp
next
  case (Cons key ks)
  from Cons.prems(1) have "bind (LoadImageTensord_body E d key ud) (LoadImageTensord_loop E d ks) s = (r, s')"
    by simp
  then show ?case
  proof (cases rule: bind_eq_cases)
    case (fail e)
    then show ?thesis using frame_LoadImageTensord_body Cons.prems(2) by auto
  next
    case (go x s1)
    have "frame K d s s1" using frame_LoadImageTensord_body [OF go(1)] Cons.prems(2) by auto
    moreover have "frame K d s1 s'" using Cons.IH [OF go(2)] Cons.prems(2) by auto
    ultimately show ?thesis by (rule frame_trans)
  qed
qed

text \<open>
  Without \<open>np\<close> in the namespace the loop cannot pass a path string, so its trace stays
  as it is; and \<open>use_default\<close> survives only a loop over path strings that decode.
\<close>

lemma LoadImageTensord_loop_True:
  "LoadImageTensord_loop E d ks ud s = (Inr True, s') \<Longrightarrow>
     ud \<and> list_all (decodes E (recs s ! d)) ks \<and> s' = s\<lparr>trace := trace s'\<rparr>"
proof (induction ks arbitrary: ud s)
  case Nil
  then show ?case by simp
next
  case (Cons key ks)
  from Cons.prems obtain ud1 s1 where
    b: "LoadImageTensord_body E d key ud s = (Inr ud1, s1)" and
    l: "LoadImageTensord_loop E d ks ud1 s1 = (Inr True, s')"
    by (auto simp: bind_Inr_iff)
  note ih = Cons.IH [OF l]
  from b show ?case
  proof (cases rule: LoadImageTensord_body_cases)
    case (path p)
    then have "decodes E (recs s ! d) key" "ud1 = ud"
      by (auto simp: decodes_iff split: sum.splits)
    moreover have "recs s1 = recs s" using path by simp
    moreover have "s' = s\<lparr>trace := trace s'\<rparr>"
      using ih path(5) by (metis (no_types, lifting) state.surjective state.update_convs(4))
    ultimately show ?thesis using ih by simp
  next
    case (direct v r1)
    then have "ud1 = False" by (auto split: sum.splits)
    with ih show ?thesis by simp
  qed simp_all
qed

lemma LoadImageTensord_loop_shipped_True:
  assumes "LoadImageTensord_loop E d ks ud s = (Inr True, s')" and "''np'' \<notin> set (injected E)"
  shows "ks = []"
proof (cases ks)
  case (Cons k ks')
  from LoadImageTensord_loop_True [OF assms(1)] Cons have "decodes E (recs s ! d) k" by simp
  with assms(2) show ?thesis by (simp add: decodes_def)
qed simp

lemma LoadImageTensord_loop_paths:
  "d < length (recs s) \<Longrightarrow> list_all (decodes E (recs s ! d)) ks \<Longrightarrow>
   \<exists>tr. LoadImageTensord_loop E d ks ud s = (Inr ud, s\<lparr>trace := tr\<rparr>)"
proof (induction ks arbitrary: s)
  case Nil
  show ?case by (rule exI [of _ "trace s"]) simp
next
  case (Cons key ks)
  then obtain p a where p: "map_of (recs s ! d) key = Some (VStr p)" "Image_open E p = Inr a"
    and np: "''np'' \<in> set (injected E)" "''Image'' \<in> set (injected E)"
    by (auto simp: decodes_iff)
  let ?s1 = "s\<lparr>trace := trace s @ [ImageOpen p]\<rparr>"
  have b: "LoadImageTensord_body E d key ud s = (Inr ud, ?s1)"
    using p np Cons.prems(1)
    by (simp add: LoadImageTensord_body_def bind_def getitem_def nth_opt_def image_open_def ret_def)
  from Cons.IH [of ?s1] Cons.prems obtain tr where
    "LoadImageTensord_loop E d ks ud ?s1 = (Inr ud, ?s1\<lparr>trace := tr\<rparr>)"
    by auto
  with b show ?case by (auto simp: bind_def)
qed

lemma LoadImageTensord_loop_append:
  "LoadImageTensord_loop E d (xs @ ys) =
     (\<lambda>ud. bind (LoadImageTensord_loop E d xs ud) (LoadImageTensord_loop E d ys))"
proof (induction xs)
  case Nil
  show ?case by (intro ext) simp
next
  case (Cons x xs)
  show ?case by (intro ext) (simp add: Cons bind_assoc)
qed

lemma LoadImageTensord_loop_invariant:
  assumes "LoadImageTensord_loop E d ks ud s = (Inr b, s')" and "Q s"
    and step: "\<And>key v s1 s2 u. key \<in> set ks \<Longrightarrow> Q s1 \<Longrightarrow>
           map_of (recs s1 ! d) key = Some v \<Longrightarrow> \<forall>p. v \<noteq> VStr p \<Longrightarrow>
           to_meta_tensor E d key (key @ ''_'' @ PostFix_meta E) s1 = (Inr u, s2) \<Longrightarrow> Q s2"
    and tr: "\<And>s1 t. Q s1 \<Longrightarrow> Q (s1\<lparr>trace := t\<rparr>)"
  shows "Q s'"
  using assms(1,2) step
proof (induction ks arbitrary: ud s)
  case Nil
  then show ?case by simp
next
  case (Cons key ks)
  from Cons.prems(1) obtain ud1 s1 where
    b: "LoadImageTensord_body E d key ud s = (Inr ud1, s1)" and
    l: "LoadImageTensord_loop E d ks ud1 s1 = (Inr b, s')"
    by (auto simp: bind_Inr_iff)
  have "Q s1"
    using b
  proof (cases rule: LoadImageTensord_body_cases)
    case (path p)
    then show ?thesis using tr [OF Cons.prems(2)] by simp
  next
    case (direct v r1)
    then obtain u where "to_meta_tensor E d key (key @ ''_'' @ PostFix_meta E) s = (Inr u, s1)"
      by (cases r1) auto
    from Cons.prems(3) [OF _ Cons.prems(2) direct(2,3) this] show ?thesis by simp
  qed simp_all
  show ?case
    by (rule Cons.IH [OF l \<open>Q s1\<close>]) (rule Cons.prems(3), auto)
qed

lemma LoadImageTensord_loop_new_keys:
  assumes "LoadImageTensord_loop E d ks ud s = (Inr b, s')"
    and "map_of (recs s ! d) k = None" and "k \<notin> (\<lambda>j. j @ ''_'' @ PostFix_meta E) ` set ks"
  shows "map_of (recs s' ! d) k = None"
proof (rule LoadImageTensord_loop_invariant [OF assms(1), where Q = "\<lambda>s. map_of (recs s ! d) k = None"])
  show "map_of (recs s ! d) k = None" by (rule assms(2))
next
  fix key v s1 s2 u
  assume key: "key \<in> set ks" and q: "map_of (recs s1 ! d) k = None"
    and t: "to_meta_tensor E d key (key @ ''_'' @ PostFix_meta E) s1 = (Inr u, s2)"
  from t show "map_of (recs s2 ! d) k = None"
  proof (cases rule: to_meta_tensor_step)
    case (1 v r m)
    have "k \<noteq> key" using 1(2) q by auto
    moreover have "k \<noteq> key @ ''_'' @ PostFix_meta E" using assms(3) key by auto
    ultimately show ?thesis using 1(7) q by simp
  qed
qed simp

lemma LoadImageTensord_loop_stable:
  assumes "LoadImageTensord_loop E d ks ud s = (Inr b, s')" and "stable_inv al0 n0 d s"
  shows "stable_inv al0 n0 d s'"
  by (rule LoadImageTensord_loop_invariant [OF assms(1), where Q = "stable_inv al0 n0 d"])
     (use assms(2) stable_inv_step in \<open>blast+, simp\<close>)

lemma LoadImageTensord_loop_no_array:
  assumes "LoadImageTensord_loop E d ks ud s = (Inr b, s')"
    and "\<forall>a. map_of (recs s ! d) k \<noteq> Some (VArr a)"
  shows "\<forall>a. map_of (recs s' ! d) k \<noteq> Some (VArr a)"
  by (rule LoadImageTensord_loop_invariant [OF assms(1),
        where Q = "\<lambda>s. \<forall>a. map_of (recs s ! d) k \<noteq> Some (VArr a)"])
     (use assms(2) to_meta_tensor_no_array in \<open>blast+, simp\<close>)

lemma LoadImageTensord_loop_converts:
  "LoadImageTensord_loop E d ks ud s = (Inr b, s') \<Longrightarrow> k \<in> set ks \<Longrightarrow>
   \<forall>a. map_of (recs s' ! d) k \<noteq> Some (VArr a)"
proof (induction ks arbitrary: ud s)
  case Nil
  then show ?case by simp
next
  case (Cons key ks)
  from Cons.prems(1) obtain ud1 s1 where
    b: "LoadImageTensord_body E d key ud s = (Inr ud1, s1)" and
    l: "LoadImageTensord_loop E d ks ud1 s1 = (Inr b, s')"
    by (auto simp: bind_Inr_iff)
  show ?case
  proof (cases "k = key")
    case False
    with Cons.prems(2) have "k \<in> set ks" by simp
    from Cons.IH [OF l this] show ?thesis .
  next
    case True
    have "\<forall>a. map_of (recs s1 ! d) k \<noteq> Some (VArr a)"
      using b
    proof (cases rule: LoadImageTensord_body_cases)
      case (path p)
      then show ?thesis using True by simp
    next
      case (direct v r1)
      then obtain u where "to_meta_tensor E d key (key @ ''_'' @ PostFix_meta E) s = (Inr u, s1)"
        by (cases r1) auto
      from to_meta_tensor_key_converted [OF this] True show ?thesis by simp
    qed simp_all
    from LoadImageTensord_loop_no_array [OF l this] show ?thesis .
  qed
qed

lemma LoadImageTensord_loop_converted:
  assumes l: "LoadImageTensord_loop E d ks ud s = (Inr b, s')" and k: "k \<in> set ks"
    and v: "map_of (recs s ! d) k = Some (VArr a)" and ke: "keeps_entries E"
  shows "\<exists>m. converted s' d k (k @ ''_'' @ PostFix_meta E) a m"
proof -
  let ?mk = "k @ ''_'' @ PostFix_meta E"
  let ?Q = "\<lambda>st. map_of (recs st ! d) k = Some (VArr a) \<or> (\<exists>m. converted st d k ?mk a m)"
  have "?Q s'"
  proof (rule LoadImageTensord_loop_invariant [OF l, where Q = ?Q])
    show "?Q s" using v by simp
  next
    fix key w s1 s2 u
    assume q: "?Q s1" and t: "to_meta_tensor E d key (key @ ''_'' @ PostFix_meta E) s1 = (Inr u, s2)"
    from q show "?Q s2"
    proof
      assume un: "map_of (recs s1 ! d) k = Some (VArr a)"
      show ?thesis
      proof (cases "key = k")
        case True
        with converted_establish [OF t [unfolded True] un ke] show ?thesis by blast
      next
        case False
        from unconverted_step [OF t un False] show ?thesis by simp
      qed
    next
      assume "\<exists>m. converted s1 d k ?mk a m"
      then obtain m where "converted s1 d k ?mk a m" by blast
      from converted_step [OF t this _ ke] show ?thesis by auto
    qed
  qed simp
  with LoadImageTensord_loop_converts [OF l k] show ?thesis by simp
qed

lemma LoadImageTensord_loop_wraps:
  "LoadImageTensord_loop E d ks ud s = (Inr b, s') \<Longrightarrow> distinct ks \<Longrightarrow> k \<in> set ks \<Longrightarrow>
   map_of (recs s ! d) k = Some (VArr a) \<Longrightarrow>
   \<exists>m. map_of (recs s' ! d) k = Some (VMetaTensor (VArr a) (VDict m))"
proof (induction ks arbitrary: ud s)
  case Nil
  then show ?case by simp
next
  case (Cons key ks)
  from Cons.prems(1) obtain ud1 s1 where
    b: "LoadImageTensord_body E d key ud s = (Inr ud1, s1)" and
    l: "LoadImageTensord_loop E d ks ud1 s1 = (Inr b, s')"
    by (auto simp: bind_Inr_iff)
  from Cons.prems(2) have dist: "distinct ks" "key \<notin> set ks" by simp_all
  show ?case
  proof (cases "key = k")
    case True
    from b obtain m where m: "map_of (recs s1 ! d) k = Some (VMetaTensor (VArr a) (VDict m))"
    proof (cases rule: LoadImageTensord_body_cases)
      case (path p)
      with Cons.prems(4) True show ?thesis by simp
    next
      case (direct v r1)
      then obtain u where t: "to_meta_tensor E d key (key @ ''_'' @ PostFix_meta E) s = (Inr u, s1)"
        by (cases r1) auto
      from t show ?thesis
      proof (cases rule: to_meta_tensor_step)
        case (1 v' r m)
        with Cons.prems(4) True have "map_of (recs s1 ! d) k = Some (VMetaTensor (VArr a) (VDict m))"
          by simp
        then show ?thesis by (rule that)
      qed
    next
      case missing
      then show ?thesis by simp
    next
      case dangling
      then show ?thesis by simp
    next
      case (noname p n)
      then show ?thesis by simp
    qed
    have "map_of (recs s' ! d) k = Some (VMetaTensor (VArr a) (VDict m))"
    proof (rule LoadImageTensord_loop_invariant [OF l,
          where Q = "\<lambda>st. map_of (recs st ! d) k = Some (VMetaTensor (VArr a) (VDict m))"])
      show "map_of (recs s1 ! d) k = Some (VMetaTensor (VArr a) (VDict m))" by (rule m)
    next
      fix key' v s2 s3 u
      assume "key' \<in> set ks" "map_of (recs s2 ! d) k = Some (VMetaTensor (VArr a) (VDict m))"
        "to_meta_tensor E d key' (key' @ ''_'' @ PostFix_meta E) s2 = (Inr u, s3)"
      with dist(2) True tensor_kept show "map_of (recs s3 ! d) k = Some (VMetaTensor (VArr a) (VDict m))"
        by blast
    qed simp
    then show ?thesis by blast
  next
    case False
    with Cons.prems(3) have k: "k \<in> set ks" by simp
    have v1: "map_of (recs s1 ! d) k = Some (VArr a)"
      using b
    proof (cases rule: LoadImageTensord_body_cases)
      case (path p)
      with Cons.prems(4) show ?thesis by simp
    next
      case (direct v r1)
      then obtain u where "to_meta_tensor E d key (key @ ''_'' @ PostFix_meta E) s = (Inr u, s1)"
        by (cases r1) auto
      from unconverted_step [OF this Cons.prems(4) False] show ?thesis .
    qed simp_all
    from Cons.IH [OF l dist(1) k v1] show ?thesis .
  qed
qed

lemma LoadImageTensord_loop_shaped:
  assumes l: "LoadImageTensord_loop E d ks ud s = (Inr b, s')" and k: "k \<in> set ks"
    and v: "map_of (recs s ! d) k = Some (VArr a)"
    and sep: "separate (recs s ! d) (length (dicts s))
       ((\<lambda>j. j @ ''_'' @ PostFix_meta E) ` {j \<in> set ks. \<exists>w. map_of (recs s ! d) j = Some w \<and> \<not> is_path w})"
    and ke: "keeps_entries E"
  shows "\<exists>m. converted s' d k (k @ ''_'' @ PostFix_meta E) a m \<and> shaped s' m a"
proof -
  let ?al = "recs s ! d"
  let ?n = "length (dicts s)"
  let ?mk = "k @ ''_'' @ PostFix_meta E"
  let ?MK = "(\<lambda>j. j @ ''_'' @ PostFix_meta E) ` {j \<in> set ks. \<exists>w. map_of ?al j = Some w \<and> \<not> is_path w}"
  let ?Q = "\<lambda>st. stable_inv ?al ?n d st \<and> separate (recs st ! d) (length (dicts st)) ?MK \<and>
      (map_of (recs st ! d) k = Some (VArr a) \<or> (\<exists>m. converted st d k ?mk a m \<and> shaped st m a))"
  have mk: "?mk \<in> ?MK" using k v by (auto simp: is_path_def)
  have "?Q s'"
  proof (rule LoadImageTensord_loop_invariant [OF l, where Q = ?Q])
    show "?Q s" using v sep by (simp add: stable_inv_init)
  next
    fix key w s1 s2 u
    assume key: "key \<in> set ks" and q: "?Q s1"
      and t: "to_meta_tensor E d key (key @ ''_'' @ PostFix_meta E) s1 = (Inr u, s2)"
    from q have st1: "stable_inv ?al ?n d s1"
      and sep1: "separate (recs s1 ! d) (length (dicts s1)) ?MK" by simp_all
    from stable_inv_direct [OF t st1] key have mk': "key @ ''_'' @ PostFix_meta E \<in> ?MK" by blast
    have st2: "stable_inv ?al ?n d s2" by (rule stable_inv_step [OF t st1])
    have sep2: "separate (recs s2 ! d) (length (dicts s2)) ?MK"
      by (rule separate_step [OF t sep1 mk'])
    from q have "map_of (recs s1 ! d) k = Some (VArr a) \<or> (\<exists>m. converted s1 d k ?mk a m \<and> shaped s1 m a)"
      by simp
    then have "map_of (recs s2 ! d) k = Some (VArr a) \<or> (\<exists>m. converted s2 d k ?mk a m \<and> shaped s2 m a)"
    proof
      assume un: "map_of (recs s1 ! d) k = Some (VArr a)"
      show ?thesis
      proof (cases "key = k")
        case True
        from converted_establish [OF t [unfolded True] un ke] show ?thesis by auto
      next
        case False
        from unconverted_step [OF t un False] show ?thesis by simp
      qed
    next
      assume "\<exists>m. converted s1 d k ?mk a m \<and> shaped s1 m a"
      then obtain m where c: "converted s1 d k ?mk a m" and sh: "shaped s1 m a" by blast
      have "converted s2 d k ?mk a m" using converted_step [OF t c _ ke] by auto
      moreover have "shaped s2 m a"
        by (rule shaped_step [OF t c sh sep1 mk mk' _ ke]) simp
      ultimately show ?thesis by blast
    qed
    with st2 sep2 show "?Q s2" by simp
  qed simp
  with LoadImageTensord_loop_converts [OF l k] show ?thesis by simp
qed

text \<open>
  A dictionary of the store is written into only as the metadata of a key that the loop
  converts, whatever the outcome of the loop.
\<close>

lemma LoadImageTensord_body_stable:
  assumes "LoadImageTensord_body E d key ud s = (Inr x, s1)" and "stable_inv al0 n0 d s"
  shows "stable_inv al0 n0 d s1"
  using assms(1)
proof (cases rule: LoadImageTensord_body_cases)
  case (path p)
  with assms(2) show ?thesis by simp
next
  case (direct v r1)
  then obtain u where "to_meta_tensor E d key (key @ ''_'' @ PostFix_meta E) s = (Inr u, s1)"
    by (cases r1) auto
  from stable_inv_step [OF this assms(2)] show ?thesis .
qed simp_all

lemma LoadImageTensord_body_protects:
  assumes b: "LoadImageTensord_body E d key ud s = (r, s1)" and i: "stable_inv al0 n0 d s"
    and p: "p < n0"
    and h: "(\<exists>w. map_of al0 key = Some w \<and> \<not> is_path w) \<longrightarrow>
            map_of al0 (key @ ''_'' @ PostFix_meta E) \<noteq> Some (VDict p)"
  shows "dicts s1 ! p = dicts s ! p"
  using b
proof (cases rule: LoadImageTensord_body_cases)
  case (direct v r1)
  from i p have pl: "p < length (dicts s)" by (simp add: stable_inv_def)
  show ?thesis
  proof (rule ccontr)
    assume "dicts s1 ! p \<noteq> dicts s ! p"
    from to_meta_tensor_dicts [OF direct(4) pl this] obtain v' where
      mk: "map_of (recs s ! d) (key @ ''_'' @ PostFix_meta E) = Some (VDict p)"
      and v': "map_of (recs s ! d) key = Some v'" "base_ref v' \<noteq> None"
      by blast
    from stable_inv_base [OF v' i] h stable_inv_old [OF mk p i] show False by simp
  qed
qed simp_all

lemma LoadImageTensord_loop_protects:
  assumes "LoadImageTensord_loop E d ks ud s = (r, s')" and "stable_inv al0 n0 d s" and "p < n0"
    and "\<forall>key\<in>set ks. (\<exists>w. map_of al0 key = Some w \<and> \<not> is_path w) \<longrightarrow>
            map_of al0 (key @ ''_'' @ PostFix_meta E) \<noteq> Some (VDict p)"
  shows "dicts s' ! p = dicts s ! p"
  using assms
proof (induction ks arbitrary: ud s)
  case Nil
  then show ?case by simp
next
  case (Cons key ks)
  from Cons.prems(1) have "bind (LoadImageTensord_body E d key ud) (LoadImageTensord_loop E d ks) s = (r, s')"
    by simp
  then show ?case
  proof (cases rule: bind_eq_cases)
    case (fail e)
    from LoadImageTensord_body_protects [OF fail(1) Cons.prems(2,3)] Cons.prems(4)
    show ?thesis by simp
  next
    case (go x s1)
    from LoadImageTensord_body_protects [OF go(1) Cons.prems(2,3)] Cons.prems(4)
    have 1: "dicts s1 ! p = dicts s ! p" by simp
    from LoadImageTensord_body_stable [OF go(1) Cons.prems(2)]
    have "stable_inv al0 n0 d s1" .
    from Cons.IH [OF go(2) this Cons.prems(3)] Cons.prems(4) 1 show ?thesis by simp
  qed
qed

subsection \<open>The call\<close>

lemma LoadImageTensord_call_cases:
  assumes "dict_at s data = Some al" and "LoadImageTensord_call E tself data s = (r, s')"
  obtains
    (direct) r0 where
      "LoadImageTensord_loop E (length (recs s)) (keys tself) True
         (s\<lparr>recs := recs s @ [al]\<rparr>) = (r0, s')"
      "case r0 of Inl e \<Rightarrow> r = Inl e | Inr ud \<Rightarrow> \<not> ud \<and> r = Inr (Rec (length (recs s)))"
  | (noloader)
      "LoadImageTensord_loop E (length (recs s)) (keys tself) True
         (s\<lparr>recs := recs s @ [al]\<rparr>) = (Inr True, s')"
      "load_image_d tself = None" "r = Inl TypeError"
  | (loader) f s1 s2 where
      "LoadImageTensord_loop E (length (recs s)) (keys tself) True
         (s\<lparr>recs := recs s @ [al]\<rparr>) = (Inr True, s1)"
      "load_image_d tself = Some f" "f (Rec (length (recs s))) s1 = (r, s2)"
      "s' = s2\<lparr>trace := trace s1 @ [DefaultLoader (Rec (length (recs s)))]\<rparr>"
proof -
  let ?d = "length (recs s)"
  let ?s0 = "s\<lparr>recs := recs s @ [al]\<rparr>"
  from assms(2) have c: "bind (LoadImageTensord_loop E ?d (keys tself) True) (\<lambda>use_default.
       if use_default then call_load_image_d tself (Rec ?d) else ret (Rec ?d)) ?s0 = (r, s')"
    unfolding LoadImageTensord_call_def using dict_copy_eq [OF assms(1)] by (simp add: bind_def)
  from c show thesis
  proof (cases rule: bind_eq_cases)
    case (fail e)
    then show ?thesis using direct [of "Inl e"] by simp
  next
    case (go ud s1)
    show ?thesis
    proof (cases ud)
      case False
      with go show ?thesis using direct [of "Inr False"] by simp
    next
      case True
      show ?thesis
      proof (cases "load_image_d tself")
        case None
        with go(2) True have "s' = s1" "r = Inl TypeError"
          by (simp_all add: call_load_image_d_def)
        with go(1) True None show ?thesis using noloader by simp
      next
        case (Some f)
        with go(2) True obtain s2 where "f (Rec ?d) s1 = (r, s2)"
          "s' = s2\<lparr>trace := trace s1 @ [DefaultLoader (Rec ?d)]\<rparr>"
          by (auto simp: call_load_image_d_def external_eq)
        with go(1) True Some show ?thesis using loader by simp
      qed
    qed
  qed
qed

lemma LoadImageTensord_call_direct:
  assumes d: "dict_at s data = Some al"
    and call: "LoadImageTensord_call E tself data s = (Inr d', s')"
    and arr: "j \<in> set (keys tself)" "map_of al j = Some (VArr a)"
  shows "d' = Rec (length (recs s)) \<and>
         LoadImageTensord_loop E (length (recs s)) (keys tself) True
           (s\<lparr>recs := recs s @ [al]\<rparr>) = (Inr False, s')"
  using d call
proof (cases rule: LoadImageTensord_call_cases)
  case (direct r0)
  then show ?thesis by (cases r0) auto
next
  case noloader
  then show ?thesis by simp
next
  case (loader f s1 s2)
  from LoadImageTensord_loop_True [OF loader(1)]
  have "list_all (decodes E al) (keys tself)" by simp
  from no_array_if_decodes [OF this arr(1), of a] arr(2) show ?thesis by simp
qed

lemma LoadImageTensord_call_flag [simp]:
  "LoadImageTensord_call E (tself\<lparr>allow_missing_keys := flag\<rparr>) = LoadImageTensord_call E tself"
  by (intro ext) (simp add: LoadImageTensord_call_def call_load_image_d_def cong: if_cong)

lemma loop_keeps_caller:
  assumes d: "dict_at s data = Some al"
    and f: "frame K (length (recs s)) (s\<lparr>recs := recs s @ [al]\<rparr>) s1"
    and pr: "\<And>n. data = Dict n \<Longrightarrow> dicts s1 ! n = dicts s ! n"
  shows "dict_at s1 data = Some al"
proof (cases data)
  case (Rec i)
  with d have i: "i < length (recs s)" "recs s ! i = al" by simp_all
  from frame_other [OF f, of i] i show ?thesis using Rec by (simp add: nth_append)
next
  case (Dict n)
  with d have n: "n < length (dicts s)" "dicts s ! n = al" by simp_all
  from f have "length (dicts s) \<le> length (dicts s1)" by (auto simp: frame_def frame0_def)
  with pr [OF Dict] n show ?thesis using Dict by simp
qed

lemma LoadImageTensord_loop_keeps_caller:
  assumes d: "dict_at s data = Some al"
    and own: "\<not> own_metadata al data (tensor_meta_keys E tself al)"
    and l: "LoadImageTensord_loop E (length (recs s)) (keys tself) True
         (s\<lparr>recs := recs s @ [al]\<rparr>) = (r0, s1)"
  shows "dict_at s1 data = Some al"
proof (rule loop_keeps_caller [OF d frame_LoadImageTensord_loop [OF l subset_refl]])
  fix n assume dn: "data = Dict n"
  let ?s0 = "s\<lparr>recs := recs s @ [al]\<rparr>"
  from d dn have n: "n < length (dicts s)" by simp
  have i: "stable_inv al (length (dicts s)) (length (recs s)) ?s0"
    by (rule stable_inv_init) simp_all
  have h: "\<forall>key\<in>set (keys tself). (\<exists>w. map_of al key = Some w \<and> \<not> is_path w) \<longrightarrow>
            map_of al (key @ ''_'' @ PostFix_meta E) \<noteq> Some (VDict n)"
    using own dn unfolding own_metadata_def tensor_meta_keys_def direct_keys_def by auto
  from LoadImageTensord_loop_protects [OF l i n h] show "dicts s1 ! n = dicts s ! n" by simp
qed

lemma LoadImageTensord_call_unchanged:
  assumes d: "dict_at s data = Some al"
    and k: "\<And>f. load_image_d tself = Some f \<Longrightarrow> keeps_record data (f (Rec (length (recs s))))"
    and own: "\<not> own_metadata al data (tensor_meta_keys E tself al)"
    and call: "LoadImageTensord_call E tself data s = (r, s')"
  shows "dict_at s' data = Some al"
  using d call
proof (cases rule: LoadImageTensord_call_cases)
  case (direct r0)
  from LoadImageTensord_loop_keeps_caller [OF d own direct(1)] show ?thesis .
next
  case noloader
  from LoadImageTensord_loop_keeps_caller [OF d own noloader(1)] show ?thesis .
next
  case (loader f s1 s2)
  from LoadImageTensord_loop_keeps_caller [OF d own loader(1)]
  have "dict_at s1 data = Some al" .
  with k [OF loader(2)] loader(3) have "dict_at s2 data = Some al"
    unfolding keeps_record_def by blast
  with loader(4) show ?thesis by (cases data) simp_all
qed

lemma LoadImageTensord_call_shared:
  assumes d: "dict_at s data = Some al"
    and call: "LoadImageTensord_call E tself data s = (Inr d', s')"
    and arr: "j \<in> set (keys tself)" "map_of al j = Some (VArr a)"
  shows "d' = Rec (length (recs s))"
    and "k \<notin> set (keys tself) \<Longrightarrow> map_of al k = Some v \<Longrightarrow>
         map_of (recs s' ! length (recs s)) k = Some v"
proof -
  from LoadImageTensord_call_direct [OF d call arr]
  have d': "d' = Rec (length (recs s))"
    and l: "LoadImageTensord_loop E (length (recs s)) (keys tself) True
           (s\<lparr>recs := recs s @ [al]\<rparr>) = (Inr False, s')"
    by simp_all
  show "d' = Rec (length (recs s))" by (rule d')
  note f = frame_LoadImageTensord_loop [OF l subset_refl]
  show "k \<notin> set (keys tself) \<Longrightarrow> map_of al k = Some v \<Longrightarrow>
         map_of (recs s' ! length (recs s)) k = Some v"
    using frame_kept [OF f, of k v] by simp
qed

lemma LoadImageTensord_call_missing:
  assumes d: "dict_at s data = Some al" and k: "map_of al k = None"
    and ks: "keys tself = ks1 @ k # ks2"
    and nm: "k \<notin> (\<lambda>j. j @ ''_'' @ PostFix_meta E) ` set ks1"
    and l: "LoadImageTensord_loop E (length (recs s)) ks1 True
              (s\<lparr>recs := recs s @ [al]\<rparr>) = (Inr b, s1)"
  shows "LoadImageTensord_call E tself data s = (Inl (KeyError k), s1)"
proof -
  let ?d = "length (recs s)"
  let ?s0 = "s\<lparr>recs := recs s @ [al]\<rparr>"
  have "map_of (recs ?s0 ! ?d) k = None" using k by simp
  from LoadImageTensord_loop_new_keys [OF l this nm]
  have k1: "map_of (recs s1 ! ?d) k = None" .
  have d1: "?d < length (recs s1)"
    using frame_length [OF frame_LoadImageTensord_loop [OF l subset_refl]] by simp
  have "LoadImageTensord_loop E ?d (keys tself) True ?s0 = (Inl (KeyError k), s1)"
    unfolding ks LoadImageTensord_loop_append
    using l LoadImageTensord_body_missing [OF d1 k1]
    by (simp add: bind_def)
  then show ?thesis
    unfolding LoadImageTensord_call_def using dict_copy_eq [OF d] by (simp add: bind_def)
qed

lemma LoadImageTensord_call_never:
  assumes d: "dict_at s data = Some al" and k: "map_of al k = None"
    and ks: "k \<in> set (keys tself)"
  shows "LoadImageTensord_call E tself data s \<noteq> (Inr d', s')"
proof
  let ?d = "length (recs s)"
  let ?s0 = "s\<lparr>recs := recs s @ [al]\<rparr>"
  assume c: "LoadImageTensord_call E tself data s = (Inr d', s')"
  from d c obtain b s2 where l: "LoadImageTensord_loop E ?d (keys tself) True ?s0 = (Inr b, s2)"
  proof (cases rule: LoadImageTensord_call_cases)
    case (direct r0)
    then show ?thesis using that by (cases r0) auto
  next
    case noloader
    then show ?thesis by simp
  next
    case (loader f s1 s2)
    then show ?thesis using that by blast
  qed
  from split_list [OF ks] obtain ks1 ks2 where sp: "keys tself = ks1 @ k # ks2" by blast
  from l obtain b1 s1 b2 s3 where
    l1: "LoadImageTensord_loop E ?d ks1 True ?s0 = (Inr b1, s1)" and
    bd: "LoadImageTensord_body E ?d k b1 s1 = (Inr b2, s3)"
    unfolding sp LoadImageTensord_loop_append by (auto simp: bind_Inr_iff)
  have "stable_inv al (length (dicts s)) ?d ?s0" by (rule stable_inv_init) simp_all
  from LoadImageTensord_loop_stable [OF l1 this]
  have q1: "stable_inv al (length (dicts s)) ?d s1" .
  from bd show False
  proof (cases rule: LoadImageTensord_body_cases)
    case (path p)
    from q1 have "\<And>j v. map_of al j = None \<Longrightarrow> map_of (recs s1 ! ?d) j = Some v \<Longrightarrow>
        \<exists>m. v = VDict m \<and> length (dicts s) \<le> m"
      unfolding stable_inv_def by blast
    from this [OF k path(2)] show ?thesis by simp
  next
    case (direct v r1)
    from direct(4,5) obtain u where
      "to_meta_tensor E ?d k (k @ ''_'' @ PostFix_meta E) s1 = (Inr u, s3)"
      by (cases r1) auto
    from stable_inv_direct [OF this q1] k show ?thesis by simp
  qed simp_all
qed

section \<open>The loop of LoadImageExd\<close>

lemma LoadImageExd_body_cases:
  assumes "LoadImageExd_body E self d ik b s = (r, s')"
  obtains
    (missing) "d < length (recs s)" "map_of (recs s ! d) (snd ik) = None"
      "r = Inl (KeyError (snd ik))" "s' = s"
  | (dangling) "length (recs s) \<le> d" "r = Inl Dangling" "s' = s"
  | (noname) v where "d < length (recs s)" "map_of (recs s ! d) (snd ik) = Some v"
      "''np'' \<notin> set (injected E)" "r = Inl (NameError ''np'')" "s' = s"
  | (skip) v where "d < length (recs s)" "map_of (recs s ! d) (snd ik) = Some v"
      "''np'' \<in> set (injected E)" "\<not> is_ndarray v" "r = Inr b" "s' = s"
  | (nopostfix) a where "d < length (recs s)" "map_of (recs s ! d) (snd ik) = Some (VArr a)"
      "length (meta_key_postfix self) \<le> fst ik" "r = Inl IndexError" "s' = s"
  | (direct) a r1 where "d < length (recs s)" "map_of (recs s ! d) (snd ik) = Some (VArr a)"
      "''np'' \<in> set (injected E)" "fst ik < length (meta_key_postfix self)"
      "to_meta_tensor E d (snd ik) (snd ik @ ''_'' @ meta_key_postfix self ! fst ik) s = (r1, s')"
      "case r1 of Inl e \<Rightarrow> r = Inl e | Inr u \<Rightarrow> r = Inr True"
proof -
  note b = assms [unfolded LoadImageExd_body_def]
  from b show thesis
  proof (cases rule: bind_eq_cases)
    case (fail e)
    then show ?thesis
      using missing dangling by (auto simp: getitem_Inl split: if_splits)
  next
    case (go v s1)
    then have g: "s1 = s" "d < length (recs s)" "map_of (recs s ! d) (snd ik) = Some v"
      by (auto simp: getitem_Inr)
    show ?thesis
    proof (cases "''np'' \<in> set (injected E)")
      case False
      with go(2) g have "r = Inl (NameError ''np'')" "s' = s" by simp_all
      with g False show ?thesis using noname by blast
    next
      case np: True
      show ?thesis
      proof (cases "is_ndarray v")
        case False
        with go(2) g np show ?thesis using skip by auto
      next
        case True
        then obtain a where a: "v = VArr a" by (auto simp: is_ndarray_iff)
        from True go(2) g np have b2: "bind (postfix_at self (fst ik)) (\<lambda>p.
           bind (to_meta_tensor E d (snd ik) (snd ik @ ''_'' @ p)) (\<lambda>_. ret True)) s = (r, s')"
          by simp
        show ?thesis
        proof (cases "fst ik < length (meta_key_postfix self)")
          case False
          with b2 have "r = Inl IndexError" "s' = s"
            by (auto simp: bind_def postfix_at_def nth_opt_def)
          with g a False show ?thesis using nopostfix by auto
        next
          case True
          with b2 have "bind (to_meta_tensor E d (snd ik)
              (snd ik @ ''_'' @ meta_key_postfix self ! fst ik)) (\<lambda>_. ret True) s = (r, s')"
            by (auto simp: bind_def postfix_at_def nth_opt_def)
          then obtain r1 where
            "to_meta_tensor E d (snd ik) (snd ik @ ''_'' @ meta_key_postfix self ! fst ik) s = (r1, s')"
            "case r1 of Inl e \<Rightarrow> r = Inl e | Inr u \<Rightarrow> r = Inr True"
            by (auto simp: bind_def split: sum.splits prod.splits)
          with g a np True show ?thesis using direct by blast
        qed
      qed
    qed
  qed
qed

lemma frame0_LoadImageExd_body:
  assumes "LoadImageExd_body E self d ik b s = (r, s')" "snd ik \<in> K"
  shows "frame0 K d s s'"
  using assms(1)
proof (cases rule: LoadImageExd_body_cases)
  case (direct a r1)
  then show ?thesis using frame0_to_meta_tensor [OF direct(5) assms(2)] by blast
qed simp_all

lemma frame0_LoadImageExd_loop:
  "LoadImageExd_loop E self d iks b s = (r, s') \<Longrightarrow> snd ` set iks \<subseteq> K \<Longrightarrow> frame0 K d s s'"
proof (induction iks arbitrary: b s)
  case Nil
  then show ?case by simp
next
  case (Cons ik iks)
  from Cons.prems(1) have "bind (LoadImageExd_body E self d ik b) (LoadImageExd_loop E self d iks) s = (r, s')"
    by simp
  then show ?case
  proof (cases rule: bind_eq_cases)
    case (fail e)
    then show ?thesis using frame0_LoadImageExd_body Cons.prems(2) by auto
  next
    case (go x s1)
    have "frame0 K d s s1" using frame0_LoadImageExd_body [OF go(1)] Cons.prems(2) by auto
    moreover have "frame0 K d s1 s'" using Cons.IH [OF go(2)] Cons.prems(2) by auto
    ultimately show ?thesis by (rule frame0_trans)
  qed
qed

lemma LoadImageExd_loop_flag:
  "LoadImageExd_loop E self d iks b s = (Inr b', s') \<Longrightarrow>
     b' = (b \<or> (\<exists>ik\<in>set iks. \<exists>a. map_of (recs s ! d) (snd ik) = Some (VArr a)))"
proof (induction iks arbitrary: b s)
  case Nil
  then show ?case by simp
next
  case (Cons ik iks)
  from Cons.prems obtain b1 s1 where
    b: "LoadImageExd_body E self d ik b s = (Inr b1, s1)" and
    l: "LoadImageExd_loop E self d iks b1 s1 = (Inr b', s')"
    by (auto simp: bind_Inr_iff)
  note ih = Cons.IH [OF l]
  from b show ?case
  proof (cases rule: LoadImageExd_body_cases)
    case (skip v)
    then show ?thesis using ih by (auto simp: is_ndarray_iff)
  next
    case (direct a r1)
    then have "b1 = True" by (auto split: sum.splits)
    with ih direct(2) show ?thesis by auto
  qed simp_all
qed


lemma LoadImageExd_body_parent [simp]:
  "LoadImageExd_body E (self\<lparr>LoadImaged_call := parent\<rparr>) = LoadImageExd_body E self"
proof -
  have pf: "postfix_at (self\<lparr>LoadImaged_call := parent\<rparr>) = postfix_at self"
    by (intro ext) (simp add: postfix_at_def)
  show ?thesis
    by (intro ext) (simp add: LoadImageExd_body_def pf cong: if_cong)
qed

lemma LoadImageExd_loop_parent [simp]:
  "LoadImageExd_loop E (self\<lparr>LoadImaged_call := parent\<rparr>) d iks = LoadImageExd_loop E self d iks"
proof (induction iks)
  case Nil
  show ?case by (intro ext) simp
next
  case (Cons ik iks)
  show ?case by (intro ext) (simp add: Cons)
qed

lemma LoadImageExd_loop_invariant:
  assumes "LoadImageExd_loop E self d iks b s = (Inr b', s')" and "Q s"
    and step: "\<And>ik a s1 s2 u. ik \<in> set iks \<Longrightarrow> Q s1 \<Longrightarrow>
           fst ik < length (meta_key_postfix self) \<Longrightarrow>
           map_of (recs s1 ! d) (snd ik) = Some (VArr a) \<Longrightarrow>
           to_meta_tensor E d (snd ik) (snd ik @ ''_'' @ meta_key_postfix self ! fst ik) s1 = (Inr u, s2)
           \<Longrightarrow> Q s2"
  shows "Q s'"
  using assms(1,2) step
proof (induction iks arbitrary: b s)
  case Nil
  then show ?case by simp
next
  case (Cons ik iks)
  from Cons.prems(1) obtain b1 s1 where
    b: "LoadImageExd_body E self d ik b s = (Inr b1, s1)" and
    l: "LoadImageExd_loop E self d iks b1 s1 = (Inr b', s')"
    by (auto simp: bind_Inr_iff)
  have "Q s1"
    using b
  proof (cases rule: LoadImageExd_body_cases)
    case (skip v)
    then show ?thesis using Cons.prems(2) by simp
  next
    case (direct a r1)
    then obtain u where
      "to_meta_tensor E d (snd ik) (snd ik @ ''_'' @ meta_key_postfix self ! fst ik) s = (Inr u, s1)"
      by (cases r1) auto
    from Cons.prems(3) [OF _ Cons.prems(2) direct(4,2) this] show ?thesis by simp
  qed simp_all
  show ?case
    by (rule Cons.IH [OF l \<open>Q s1\<close>]) (rule Cons.prems(3), auto)
qed

lemma LoadImageExd_loop_no_array:
  assumes "LoadImageExd_loop E self d iks b s = (Inr b', s')"
    and "\<forall>a. map_of (recs s ! d) k \<noteq> Some (VArr a)"
  shows "\<forall>a. map_of (recs s' ! d) k \<noteq> Some (VArr a)"
  by (rule LoadImageExd_loop_invariant [OF assms(1),
        where Q = "\<lambda>s. \<forall>a. map_of (recs s ! d) k \<noteq> Some (VArr a)"])
     (use assms(2) to_meta_tensor_no_array in \<open>blast+\<close>)

lemma LoadImageExd_loop_converts:
  "LoadImageExd_loop E self d iks b s = (Inr b', s') \<Longrightarrow> k \<in> snd ` set iks \<Longrightarrow>
   \<forall>a. map_of (recs s' ! d) k \<noteq> Some (VArr a)"
proof (induction iks arbitrary: b s)
  case Nil
  then show ?case by simp
next
  case (Cons ik iks)
  from Cons.prems(1) obtain b1 s1 where
    b: "LoadImageExd_body E self d ik b s = (Inr b1, s1)" and
    l: "LoadImageExd_loop E self d iks b1 s1 = (Inr b', s')"
    by (auto simp: bind_Inr_iff)
  show ?case
  proof (cases "k = snd ik")
    case False
    with Cons.prems(2) have "k \<in> snd ` set iks" by auto
    from Cons.IH [OF l this] show ?thesis .
  next
    case True
    have "\<forall>a. map_of (recs s1 ! d) k \<noteq> Some (VArr a)"
      using b
    proof (cases rule: LoadImageExd_body_cases)
      case (skip v)
      then show ?thesis using True by (auto simp: is_ndarray_iff)
    next
      case (direct a r1)
      then obtain u where
        "to_meta_tensor E d (snd ik) (snd ik @ ''_'' @ meta_key_postfix self ! fst ik) s = (Inr u, s1)"
        by (cases r1) auto
      from to_meta_tensor_key_converted [OF this] True show ?thesis by simp
    qed simp_all
    from LoadImageExd_loop_no_array [OF l this] show ?thesis .
  qed
qed

lemma LoadImageExd_loop_converted:
  assumes l: "LoadImageExd_loop E self d iks b s = (Inr b', s')" and k: "k \<in> snd ` set iks"
    and v: "map_of (recs s ! d) k = Some (VArr a)" and ke: "keeps_entries E"
  shows "\<exists>ik\<in>set iks. \<exists>m. snd ik = k \<and> fst ik < length (meta_key_postfix self) \<and>
           converted s' d k (k @ ''_'' @ meta_key_postfix self ! fst ik) a m \<and>
           map_of (recs s' ! d) k = Some (VMetaTensor (VArr a) (VDict m))"
proof -
  let ?C = "\<lambda>st. \<exists>ik\<in>set iks. \<exists>m. snd ik = k \<and> fst ik < length (meta_key_postfix self) \<and>
           converted st d k (k @ ''_'' @ meta_key_postfix self ! fst ik) a m \<and>
           map_of (recs st ! d) k = Some (VMetaTensor (VArr a) (VDict m))"
  let ?Q = "\<lambda>st. map_of (recs st ! d) k = Some (VArr a) \<or> ?C st"
  have "?Q s'"
  proof (rule LoadImageExd_loop_invariant [OF l, where Q = ?Q])
    show "?Q s" using v by simp
  next
    fix ik' a' s1 s2 u
    assume ik': "ik' \<in> set iks" and q: "?Q s1" and pf: "fst ik' < length (meta_key_postfix self)"
      and va: "map_of (recs s1 ! d) (snd ik') = Some (VArr a')"
      and t: "to_meta_tensor E d (snd ik') (snd ik' @ ''_'' @ meta_key_postfix self ! fst ik') s1 = (Inr u, s2)"
    from q show "?Q s2"
    proof
      assume un: "map_of (recs s1 ! d) k = Some (VArr a)"
      show ?thesis
      proof (cases "snd ik' = k")
        case True
        from converted_establish [OF t [unfolded True] un ke] obtain m where
          "converted s2 d k (k @ ''_'' @ meta_key_postfix self ! fst ik') a m"
          "map_of (recs s2 ! d) k = Some (VMetaTensor (VArr a) (VDict m))"
          by blast
        with ik' pf True have "?C s2" by blast
        then show ?thesis by simp
      next
        case False
        from unconverted_step [OF t un False] show ?thesis by simp
      qed
    next
      assume "?C s1"
      then obtain ik m where c: "ik \<in> set iks" "snd ik = k" "fst ik < length (meta_key_postfix self)"
          "converted s1 d k (k @ ''_'' @ meta_key_postfix self ! fst ik) a m"
          "map_of (recs s1 ! d) k = Some (VMetaTensor (VArr a) (VDict m))"
        by blast
      from c(5) va have ne: "snd ik' \<noteq> k" by auto
      from converted_step [OF t c(4) _ ke] ne
      have "converted s2 d k (k @ ''_'' @ meta_key_postfix self ! fst ik) a m" by simp
      moreover from tensor_kept [OF t c(5) ne]
      have "map_of (recs s2 ! d) k = Some (VMetaTensor (VArr a) (VDict m))" by simp
      ultimately have "?C s2" using c(1,2,3) by blast
      then show ?thesis by simp
    qed
  qed
  with LoadImageExd_loop_converts [OF l k] show ?thesis by simp
qed

lemma LoadImageExd_loop_stable:
  assumes "LoadImageExd_loop E self d iks b s = (Inr b', s')" and "stable_inv al0 n0 d s"
  shows "stable_inv al0 n0 d s'"
  by (rule LoadImageExd_loop_invariant [OF assms(1), where Q = "stable_inv al0 n0 d"])
     (use assms(2) stable_inv_step in \<open>blast+\<close>)

lemma LoadImageExd_loop_shaped:
  assumes l: "LoadImageExd_loop E self d iks b s = (Inr b', s')" and k: "k \<in> snd ` set iks"
    and v: "map_of (recs s ! d) k = Some (VArr a)"
    and sep: "separate (recs s ! d) (length (dicts s))
       (exd_meta_key self ` {ik \<in> set iks. \<exists>w. map_of (recs s ! d) (snd ik) = Some w \<and> is_ndarray w})"
    and apart: "\<forall>ik\<in>{ik \<in> set iks. \<exists>w. map_of (recs s ! d) (snd ik) = Some w \<and> is_ndarray w}.
                \<forall>ik'\<in>{ik \<in> set iks. \<exists>w. map_of (recs s ! d) (snd ik) = Some w \<and> is_ndarray w}.
                  exd_meta_key self ik = exd_meta_key self ik' \<longrightarrow> snd ik = snd ik'"
    and ke: "keeps_entries E"
  shows "\<exists>m. map_of (recs s' ! d) k = Some (VMetaTensor (VArr a) (VDict m)) \<and>
             populated s' m \<and> shaped s' m a"
proof -
  let ?al = "recs s ! d"
  let ?n = "length (dicts s)"
  let ?A = "{ik \<in> set iks. \<exists>w. map_of ?al (snd ik) = Some w \<and> is_ndarray w}"
  let ?MK = "exd_meta_key self ` ?A"
  let ?C = "\<lambda>st. \<exists>ik\<in>?A. \<exists>m. snd ik = k \<and>
           converted st d k (exd_meta_key self ik) a m \<and> shaped st m a \<and>
           map_of (recs st ! d) k = Some (VMetaTensor (VArr a) (VDict m))"
  let ?Q = "\<lambda>st. stable_inv ?al ?n d st \<and> separate (recs st ! d) (length (dicts st)) ?MK \<and>
      (map_of (recs st ! d) k = Some (VArr a) \<or> ?C st)"
  have "?Q s'"
  proof (rule LoadImageExd_loop_invariant [OF l, where Q = ?Q])
    show "?Q s" using v sep by (simp add: stable_inv_init)
  next
    fix ik' a' s1 s2 u
    assume ik': "ik' \<in> set iks" and q: "?Q s1"
      and va: "map_of (recs s1 ! d) (snd ik') = Some (VArr a')"
      and t0: "to_meta_tensor E d (snd ik') (snd ik' @ ''_'' @ meta_key_postfix self ! fst ik') s1 = (Inr u, s2)"
    from t0 have t: "to_meta_tensor E d (snd ik') (exd_meta_key self ik') s1 = (Inr u, s2)"
      by (simp add: exd_meta_key_def)
    from q have st1: "stable_inv ?al ?n d s1"
      and sep1: "separate (recs s1 ! d) (length (dicts s1)) ?MK" by simp_all
    from stable_inv_array [OF va st1] ik' have ikA: "ik' \<in> ?A" by (simp add: is_ndarray_def)
    then have mk': "exd_meta_key self ik' \<in> ?MK" by blast
    have st2: "stable_inv ?al ?n d s2" by (rule stable_inv_step [OF t st1])
    have sep2: "separate (recs s2 ! d) (length (dicts s2)) ?MK"
      by (rule separate_step [OF t sep1 mk'])
    from q have "map_of (recs s1 ! d) k = Some (VArr a) \<or> ?C s1" by simp
    then have "map_of (recs s2 ! d) k = Some (VArr a) \<or> ?C s2"
    proof
      assume un: "map_of (recs s1 ! d) k = Some (VArr a)"
      show ?thesis
      proof (cases "snd ik' = k")
        case True
        from converted_establish [OF t [unfolded True] un ke] obtain m where
          "converted s2 d k (exd_meta_key self ik') a m" "shaped s2 m a"
          "map_of (recs s2 ! d) k = Some (VMetaTensor (VArr a) (VDict m))"
          by auto
        with ikA True have "?C s2" by blast
        then show ?thesis by simp
      next
        case False
        from unconverted_step [OF t un False] show ?thesis by simp
      qed
    next
      assume "?C s1"
      then obtain ik m where c: "ik \<in> ?A" "snd ik = k"
          "converted s1 d k (exd_meta_key self ik) a m" "shaped s1 m a"
          "map_of (recs s1 ! d) k = Some (VMetaTensor (VArr a) (VDict m))"
        by blast
      from c(5) va have ne: "snd ik' \<noteq> k" by auto
      have mk: "exd_meta_key self ik \<in> ?MK" using c(1) by blast
      from converted_step [OF t c(3) _ ke] ne
      have c2: "converted s2 d k (exd_meta_key self ik) a m" by simp
      from tensor_kept [OF t c(5) ne]
      have k2: "map_of (recs s2 ! d) k = Some (VMetaTensor (VArr a) (VDict m))" .
      have "shaped s2 m a"
      proof (rule shaped_step [OF t c(3,4) sep1 mk mk' _ ke])
        assume "exd_meta_key self ik' = exd_meta_key self ik"
        with apart ikA c(1) have "snd ik' = snd ik" by blast
        with ne c(2) show "snd ik' = k" by simp
      qed
      with c2 k2 c(1,2) have "?C s2" by blast
      then show ?thesis by simp
    qed
    with st2 sep2 show "?Q s2" by simp
  qed
  with LoadImageExd_loop_converts [OF l k] have "?C s'" by simp
  then show ?thesis unfolding converted_def by blast
qed

text \<open>
  Without \<open>np\<close> in the namespace the first round of the loop raises: KeyError when the
  key is not bound, NameError when it is.
\<close>

lemma LoadImageExd_loop_shipped:
  assumes "''np'' \<notin> set (injected E)" and "d < length (recs s)"
  shows "LoadImageExd_loop E self d (ik # iks) b s =
     (case map_of (recs s ! d) (snd ik) of
        None \<Rightarrow> (Inl (KeyError (snd ik)), s)
      | Some v \<Rightarrow> (Inl (NameError ''np''), s))"
  using assms
  by (simp add: LoadImageExd_body_def bind_def getitem_def nth_opt_def raise_def split: option.splits)

lemma LoadImageExd_body_stable:
  assumes "LoadImageExd_body E self d ik b s = (Inr x, s1)" and "stable_inv al0 n0 d s"
  shows "stable_inv al0 n0 d s1"
  using assms(1)
proof (cases rule: LoadImageExd_body_cases)
  case (skip v)
  with assms(2) show ?thesis by simp
next
  case (direct a r1)
  then obtain u where
    "to_meta_tensor E d (snd ik) (snd ik @ ''_'' @ meta_key_postfix self ! fst ik) s = (Inr u, s1)"
    by (cases r1) auto
  from stable_inv_step [OF this assms(2)] show ?thesis .
qed simp_all

lemma LoadImageExd_body_protects:
  assumes b: "LoadImageExd_body E self d ik b0 s = (r, s1)" and i: "stable_inv al0 n0 d s"
    and p: "p < n0"
    and h: "(\<exists>w. map_of al0 (snd ik) = Some w \<and> is_ndarray w) \<longrightarrow>
            map_of al0 (exd_meta_key self ik) \<noteq> Some (VDict p)"
  shows "dicts s1 ! p = dicts s ! p"
  using b
proof (cases rule: LoadImageExd_body_cases)
  case (direct a r1)
  from i p have pl: "p < length (dicts s)" by (simp add: stable_inv_def)
  show ?thesis
  proof (rule ccontr)
    assume "dicts s1 ! p \<noteq> dicts s ! p"
    from to_meta_tensor_dicts [OF direct(5) pl this]
    have mk: "map_of (recs s ! d) (exd_meta_key self ik) = Some (VDict p)"
      by (simp add: exd_meta_key_def)
    from stable_inv_array [OF direct(2) i] h stable_inv_old [OF mk p i] show False
      by (simp add: is_ndarray_def)
  qed
qed simp_all

lemma LoadImageExd_loop_protects:
  assumes "LoadImageExd_loop E self d iks b s = (r, s')" and "stable_inv al0 n0 d s" and "p < n0"
    and "\<forall>ik\<in>set iks. (\<exists>w. map_of al0 (snd ik) = Some w \<and> is_ndarray w) \<longrightarrow>
            map_of al0 (exd_meta_key self ik) \<noteq> Some (VDict p)"
  shows "dicts s' ! p = dicts s ! p"
  using assms
proof (induction iks arbitrary: b s)
  case Nil
  then show ?case by simp
next
  case (Cons ik iks)
  from Cons.prems(1) have "bind (LoadImageExd_body E self d ik b) (LoadImageExd_loop E self d iks) s = (r, s')"
    by simp
  then show ?case
  proof (cases rule: bind_eq_cases)
    case (fail e)
    from LoadImageExd_body_protects [OF fail(1) Cons.prems(2,3)] Cons.prems(4)
    show ?thesis by simp
  next
    case (go x s1)
    from LoadImageExd_body_protects [OF go(1) Cons.prems(2,3)] Cons.prems(4)
    have 1: "dicts s1 ! p = dicts s ! p" by simp
    from LoadImageExd_body_stable [OF go(1) Cons.prems(2)]
    have "stable_inv al0 n0 d s1" .
    from Cons.IH [OF go(2) this Cons.prems(3)] Cons.prems(4) 1 show ?thesis by simp
  qed
qed

subsection \<open>The call\<close>

lemma LoadImageExd_call_cases:
  assumes "dict_at s data = Some al" and "LoadImageExd_call E xself data reader s = (r, s')"
  obtains
    (direct) r0 where
      "LoadImageExd_loop E xself (length (recs s)) (enumerate 0 (keysx xself)) False
         (s\<lparr>recs := recs s @ [al]\<rparr>) = (r0, s')"
      "case r0 of Inl e \<Rightarrow> r = Inl e | Inr b \<Rightarrow> b \<and> r = Inr (Rec (length (recs s)))"
  | (parent) s1 s2 where
      "LoadImageExd_loop E xself (length (recs s)) (enumerate 0 (keysx xself)) False
         (s\<lparr>recs := recs s @ [al]\<rparr>) = (Inr False, s1)"
      "LoadImaged_call xself (Rec (length (recs s))) reader s1 = (r, s2)"
      "s' = s2\<lparr>trace := trace s1 @ [ParentLoader (Rec (length (recs s)))]\<rparr>"
proof -
  let ?d = "length (recs s)"
  let ?s0 = "s\<lparr>recs := recs s @ [al]\<rparr>"
  from assms(2) have c: "bind (LoadImageExd_loop E xself ?d (enumerate 0 (keysx xself)) False)
       (\<lambda>direct_image.
       if \<not> direct_image then external (ParentLoader (Rec ?d)) (LoadImaged_call xself (Rec ?d) reader)
       else ret (Rec ?d)) ?s0 = (r, s')"
    unfolding LoadImageExd_call_def using dict_copy_eq [OF assms(1)] by (simp add: bind_def)
  from c show thesis
  proof (cases rule: bind_eq_cases)
    case (fail e)
    then show ?thesis using direct [of "Inl e"] by simp
  next
    case (go b s1)
    show ?thesis
    proof (cases b)
      case True
      with go show ?thesis using direct [of "Inr True"] by simp
    next
      case False
      with go(2) obtain s2 where "LoadImaged_call xself (Rec ?d) reader s1 = (r, s2)"
        "s' = s2\<lparr>trace := trace s1 @ [ParentLoader (Rec ?d)]\<rparr>"
        by (auto simp: external_eq)
      with go(1) False show ?thesis using parent by simp
    qed
  qed
qed

lemma LoadImageExd_call_direct:
  assumes d: "dict_at s data = Some al"
    and arr: "\<exists>k\<in>set (keysx self). \<exists>a. map_of al k = Some (VArr a)"
    and call: "LoadImageExd_call E self data reader s = (r, s')"
  shows "\<exists>r0. LoadImageExd_loop E self (length (recs s)) (enumerate 0 (keysx self)) False
            (s\<lparr>recs := recs s @ [al]\<rparr>) = (r0, s') \<and>
          (case r0 of Inl e \<Rightarrow> r = Inl e | Inr b \<Rightarrow> b \<and> r = Inr (Rec (length (recs s))))"
  using d call
proof (cases rule: LoadImageExd_call_cases)
  case (direct r0)
  then show ?thesis by blast
next
  case (parent s1 s2)
  let ?s0 = "s\<lparr>recs := recs s @ [al]\<rparr>"
  from arr have "\<exists>ik\<in>set (enumerate 0 (keysx self)). \<exists>a.
      map_of (recs ?s0 ! length (recs s)) (snd ik) = Some (VArr a)"
    by simp (metis imageE snd_enumerate)
  with LoadImageExd_loop_flag [OF parent(1)] show ?thesis by simp
qed

lemma LoadImageExd_loop_keeps_caller:
  assumes d: "dict_at s data = Some al"
    and own: "\<not> own_metadata al data (exd_meta_keys xself al)"
    and l: "LoadImageExd_loop E xself (length (recs s)) (enumerate 0 (keysx xself)) b
         (s\<lparr>recs := recs s @ [al]\<rparr>) = (r0, s1)"
  shows "dict_at s1 data = Some al"
proof (rule loop_keeps_caller [OF d frame0_frame [OF frame0_LoadImageExd_loop [OF l subset_refl]]])
  fix n assume dn: "data = Dict n"
  let ?s0 = "s\<lparr>recs := recs s @ [al]\<rparr>"
  from d dn have n: "n < length (dicts s)" by simp
  have i: "stable_inv al (length (dicts s)) (length (recs s)) ?s0"
    by (rule stable_inv_init) simp_all
  have h: "\<forall>ik\<in>set (enumerate 0 (keysx xself)). (\<exists>w. map_of al (snd ik) = Some w \<and> is_ndarray w) \<longrightarrow>
            map_of al (exd_meta_key xself ik) \<noteq> Some (VDict n)"
  proof (intro ballI impI notI)
    fix ik assume ik: "ik \<in> set (enumerate 0 (keysx xself))"
      "\<exists>w. map_of al (snd ik) = Some w \<and> is_ndarray w"
      and b: "map_of al (exd_meta_key xself ik) = Some (VDict n)"
    from ik have "ik \<in> array_keys xself al" by (simp add: array_keys_def)
    then have "exd_meta_key xself ik \<in> exd_meta_keys xself al" by (simp add: exd_meta_keys_def)
    with b own dn show False by (auto simp: own_metadata_def)
  qed
  from LoadImageExd_loop_protects [OF l i n h] show "dicts s1 ! n = dicts s ! n" by simp
qed

lemma LoadImageExd_call_unchanged:
  assumes d: "dict_at s data = Some al"
    and k: "keeps_record data (LoadImaged_call xself (Rec (length (recs s))) reader)"
    and own: "\<not> own_metadata al data (exd_meta_keys xself al)"
    and call: "LoadImageExd_call E xself data reader s = (r, s')"
  shows "dict_at s' data = Some al"
  using d call
proof (cases rule: LoadImageExd_call_cases)
  case (direct r0)
  from LoadImageExd_loop_keeps_caller [OF d own direct(1)] show ?thesis .
next
  case (parent s1 s2)
  from LoadImageExd_loop_keeps_caller [OF d own parent(1)]
  have "dict_at s1 data = Some al" .
  with k parent(2) have "dict_at s2 data = Some al"
    unfolding keeps_record_def by blast
  with parent(3) show ?thesis by (cases data) simp_all
qed

lemma LoadImageExd_call_shared:
  assumes d: "dict_at s data = Some al"
    and call: "LoadImageExd_call E xself data reader s = (Inr d', s')"
    and arr: "j \<in> set (keysx xself)" "map_of al j = Some (VArr a)"
  shows "d' = Rec (length (recs s))"
    and "LoadImageExd_loop E xself (length (recs s)) (enumerate 0 (keysx xself)) False
            (s\<lparr>recs := recs s @ [al]\<rparr>) = (Inr True, s')"
    and "k \<notin> set (keysx xself) \<Longrightarrow> map_of al k = Some v \<Longrightarrow>
         map_of (recs s' ! length (recs s)) k = Some v"
proof -
  from arr have "\<exists>k\<in>set (keysx xself). \<exists>a. map_of al k = Some (VArr a)" by blast
  from LoadImageExd_call_direct [OF d this call] obtain r0 where
    l: "LoadImageExd_loop E xself (length (recs s)) (enumerate 0 (keysx xself)) False
            (s\<lparr>recs := recs s @ [al]\<rparr>) = (r0, s')" and
    r0: "case r0 of Inl e \<Rightarrow> Inr d' = (Inl e :: error + dref)
         | Inr b \<Rightarrow> b \<and> Inr d' = (Inr (Rec (length (recs s))) :: error + dref)"
    by blast
  from r0 show d': "d' = Rec (length (recs s))" by (cases r0) auto
  from r0 have "r0 = Inr True" by (cases r0) auto
  with l show l': "LoadImageExd_loop E xself (length (recs s)) (enumerate 0 (keysx xself)) False
            (s\<lparr>recs := recs s @ [al]\<rparr>) = (Inr True, s')" by simp
  note f = frame0_frame [OF frame0_LoadImageExd_loop [OF l subset_refl]]
  show "k \<notin> set (keysx xself) \<Longrightarrow> map_of al k = Some v \<Longrightarrow>
         map_of (recs s' ! length (recs s)) k = Some v"
    using frame_kept [OF f, of k v] by simp
qed


section \<open>Facts about the concrete inputs\<close>

lemma keeps_entries_ex_env: "keeps_entries ex_env"
  by (auto simp: keeps_entries_def three_def ex_env_def ex_constructor_def Let_def
      update_conv')

lemma keeps_entries_ex_env_patched: "keeps_entries ex_env_patched"
  using keeps_entries_ex_env by (simp add: keeps_entries_def ex_env_patched_def)

lemma ex_label_run:
  "NormalizeLabeld_call ex_env ex_normalize (Rec 0) ex_label_state = (Inr (Rec 1), ex_label_state1)"
  by (simp add: run_defs np_cast_def binarize_def binarized_def ex_env_def ex_normalize_def
      ex_label_state_def ex_label_state1_def)

lemma keeps_record_ex_loader: "Rec d \<noteq> data \<Longrightarrow> keeps_record data (ex_loader (Rec d))"
  by (cases data)
    (auto simp: keeps_record_def ex_loader_def bind_def setitem_def ret_def nth_opt_def
      split: option.splits prod.splits sum.splits if_splits)

lemma keeps_record_ex_parent: "Rec d \<noteq> data \<Longrightarrow> keeps_record data (ex_parent (Rec d) reader)"
  by (cases data)
    (auto simp: keeps_record_def ex_parent_def bind_def setitem_def ret_def nth_opt_def
      split: option.splits prod.splits sum.splits if_splits)

section \<open>The default loader of LoadImageTensord\<close>

text \<open>
  Claim C1, on the code as it is. In a call of \<open>LoadImageTensord\<close> the default loader
  is invoked exactly when a loader was supplied and every target key is bound to a path
  that line 52 decodes; then the loader receives the fresh copy and the call returns what
  the loader returns; and when some target key holds an array the loader is not invoked.
  But line 52 uses \<open>np\<close> and \<open>Image\<close>, and the module binds neither. So in the
  module as shipped no path is ever decoded: a call with a target key invokes no default
  loader, and a call on a record whose target keys all hold path strings raises NameError
  at the first key, leaving nothing but the copy it made.
\<close>

theorem LoadImageTensord_default_loader:
  assumes "dict_at s data = Some al" and "LoadImageTensord_call E tself data s = (r, s')"
  shows "(default_loader_invoked s s' \<longleftrightarrow>
            load_image_d tself \<noteq> None \<and> list_all (decodes E al) (keys tself))
       \<and> (\<forall>f. load_image_d tself = Some f \<and> list_all (decodes E al) (keys tself) \<longrightarrow>
             (\<exists>tr. (r, s') = external (DefaultLoader (Rec (length (recs s))))
                       (f (Rec (length (recs s)))) (s\<lparr>recs := recs s @ [al], trace := tr\<rparr>)))
       \<and> ((\<exists>k\<in>set (keys tself). \<exists>a. map_of al k = Some (VArr a)) \<longrightarrow>
             \<not> default_loader_invoked s s')
       \<and> (shipped E \<and> keys tself \<noteq> [] \<longrightarrow> \<not> default_loader_invoked s s')
       \<and> (shipped E \<and> keys tself \<noteq> [] \<and> (\<forall>k\<in>set (keys tself). \<exists>p. map_of al k = Some (VStr p)) \<longrightarrow>
             r = Inl (NameError ''np'') \<and> s' = s\<lparr>recs := recs s @ [al]\<rparr>)"
proof -
  let ?d = "length (recs s)"
  let ?s0 = "s\<lparr>recs := recs s @ [al]\<rparr>"
  let ?P = "list_all (decodes E al) (keys tself)"
  have al: "recs ?s0 ! ?d = al" "?d < length (recs ?s0)" by simp_all
  from assms(2) have c: "bind (LoadImageTensord_loop E ?d (keys tself) True) (\<lambda>use_default.
       if use_default then call_load_image_d tself (Rec ?d) else ret (Rec ?d)) ?s0 = (r, s')"
    unfolding LoadImageTensord_call_def using dict_copy_eq [OF assms(1)] by (simp add: bind_def)
  have nd: "\<not> default_loader_invoked s s'" if "frame K ?d ?s0 s'" for K
    using frame_no_default [OF that] by (simp add: default_loader_invoked_def)
  have A: "\<not> default_loader_invoked s s'" if "\<not> (load_image_d tself \<noteq> None \<and> ?P)"
    using c
  proof (cases rule: bind_eq_cases)
    case (fail e)
    from frame_LoadImageTensord_loop [OF this(1) subset_refl] show ?thesis by (rule nd)
  next
    case (go ud s1)
    note f = frame_LoadImageTensord_loop [OF go(1) subset_refl]
    show ?thesis
    proof (cases ud)
      case False
      with go(2) have "s' = s1" by simp
      with f show ?thesis using nd by blast
    next
      case True
      with go(1) have "?P" using LoadImageTensord_loop_True [of E ?d "keys tself" True ?s0 s1]
        by (simp add: al)
      with that have "load_image_d tself = None" by simp
      with go(2) True have "s' = s1" by (simp add: call_load_image_d_def raise_def)
      with f show ?thesis using nd by blast
    qed
  qed
  have L: "\<exists>tr. (r, s') = external (DefaultLoader (Rec ?d)) (f (Rec ?d)) (?s0\<lparr>trace := tr\<rparr>)
           \<and> length (trace s) \<le> length tr"
    if "load_image_d tself = Some f" "?P" for f
  proof -
    from LoadImageTensord_loop_paths [of ?d ?s0 E "keys tself" True] that(2) obtain tr where
      l: "LoadImageTensord_loop E ?d (keys tself) True ?s0 = (Inr True, ?s0\<lparr>trace := tr\<rparr>)"
      by (auto simp: al)
    from frame_LoadImageTensord_loop [OF l subset_refl] obtain ps where
      tr: "tr = trace s @ map ImageOpen ps"
      by (auto simp: frame_def)
    from l c that(1) have "(r, s') = external (DefaultLoader (Rec ?d)) (f (Rec ?d)) (?s0\<lparr>trace := tr\<rparr>)"
      by (simp add: bind_def call_load_image_d_def)
    with tr show ?thesis by auto
  qed
  have B: "\<exists>tr. (r, s') = external (DefaultLoader (Rec ?d)) (f (Rec ?d)) (?s0\<lparr>trace := tr\<rparr>)"
    if "load_image_d tself = Some f" "?P" for f
    using L [OF that] by blast
  have C: "default_loader_invoked s s'" if "load_image_d tself \<noteq> None" "?P"
  proof -
    from that obtain f where f: "load_image_d tself = Some f" by auto
    from L [OF f that(2)] obtain tr where tr: "length (trace s) \<le> length tr"
      and e: "(r, s') = external (DefaultLoader (Rec ?d)) (f (Rec ?d)) (?s0\<lparr>trace := tr\<rparr>)"
      by blast
    from e have "trace s' = tr @ [DefaultLoader (Rec ?d)]"
      by (auto simp: external_def split: prod.splits)
    with tr show ?thesis
      by (simp add: default_loader_invoked_def is_default_loader_def)
  qed
  have D: "\<not> ?P" if "\<exists>k\<in>set (keys tself). \<exists>a. map_of al k = Some (VArr a)"
  proof -
    from that obtain k a where "k \<in> set (keys tself)" "map_of al k = Some (VArr a)" by blast
    then have "k \<in> set (keys tself)" "\<not> decodes E al k" by (simp_all add: decodes_def)
    then show ?thesis unfolding list_all_iff by blast
  qed
  have S: "\<not> ?P" if "shipped E" "keys tself \<noteq> []"
  proof -
    from that(2) obtain k where "k \<in> set (keys tself)" by (cases "keys tself") auto
    moreover from that(1) have "\<not> decodes E al k" by (simp add: decodes_iff shipped_def)
    ultimately show ?thesis unfolding list_all_iff by blast
  qed
  have N: "r = Inl (NameError ''np'') \<and> s' = ?s0"
    if sh: "shipped E" and ne: "keys tself \<noteq> []"
      and all: "\<forall>k\<in>set (keys tself). \<exists>p. map_of al k = Some (VStr p)"
  proof -
    from sh have np: "''np'' \<notin> set (injected E)" by (simp add: shipped_def)
    from ne obtain k ks where ks: "keys tself = k # ks" by (cases "keys tself") auto
    with all obtain p where p: "map_of al k = Some (VStr p)" by auto
    have "LoadImageTensord_body E ?d k True ?s0 = (Inl (NameError ''np''), ?s0)"
      by (rule LoadImageTensord_body_NameError [OF _ _ np]) (use p in simp_all)
    then have "LoadImageTensord_loop E ?d (keys tself) True ?s0 = (Inl (NameError ''np''), ?s0)"
      by (simp add: ks bind_def)
    with c show ?thesis by (simp add: bind_def)
  qed
  show ?thesis
    using A B C D S N by (intro conjI) blast+
qed

theorem LoadImageTensord_default_loader_witness:
  "shipped ex_env \<and> keys ex_tensord = [''image''] \<and>
   map_of (recs ex_path_state ! 0) ''image'' = Some (VStr ''x.png'') \<and>
   LoadImageTensord_call ex_env ex_tensord (Rec 0) ex_path_state
     = (Inl (NameError ''np''), ex_path_copied) \<and>
   \<not> default_loader_invoked ex_path_state ex_path_copied \<and>
   LoadImageTensord_call ex_env_patched ex_tensord (Rec 0) ex_path_state
     = (Inr (Rec 1), ex_path_state1) \<and>
   default_loader_invoked ex_path_state ex_path_state1"
proof -
  have d: "dict_at ex_path_state (Rec 0) = Some [(''image'', VStr ''x.png'')]"
    by (simp add: ex_path_state_def)
  have sh: "shipped ex_env" by (simp add: shipped_def ex_env_def)
  have k: "keys ex_tensord = [''image'']" by (simp add: ex_tensord_def)
  have c: "LoadImageTensord_call ex_env ex_tensord (Rec 0) ex_path_state
     = (Inl (NameError ''np''), ex_path_copied)"
    by (simp add: run_defs ex_defs ex_tensord_def ex_path_state_def ex_path_copied_def)
  have c2: "LoadImageTensord_call ex_env_patched ex_tensord (Rec 0) ex_path_state
     = (Inr (Rec 1), ex_path_state1)"
    by (simp add: run_defs ex_defs ex_tensord_def ex_path_state_def ex_path_state1_def)
  have p: "list_all (decodes ex_env_patched [(''image'', VStr ''x.png'')]) (keys ex_tensord)"
    by (simp add: decodes_def ex_defs ex_tensord_def)
  have l: "load_image_d ex_tensord \<noteq> None" by (simp add: ex_tensord_def)
  have ne: "keys ex_tensord \<noteq> []" by (simp add: ex_tensord_def)
  from LoadImageTensord_default_loader [OF d c] sh ne
  have 1: "\<not> default_loader_invoked ex_path_state ex_path_copied" by blast
  from LoadImageTensord_default_loader [OF d c2] p l
  have 2: "default_loader_invoked ex_path_state ex_path_state1" by blast
  from sh k c c2 1 2 show ?thesis by (simp add: ex_path_state_def)
qed

section \<open>What LoadImageExd converts\<close>




section \<open>The tensor and its metadata\<close>

text \<open>
  Claim C3 as stated fails: \<open>image\<close> and \<open>label\<close> hold arrays of shapes
  \<open>(10, 10, 3)\<close> and \<open>(4, 4, 1)\<close>, and the caller bound their two metadata keys to
  one and the same mapping. \<open>LoadImageTensord\<close> returns, and the metadata of the tensor
  bound to \<open>image\<close> has the \<open>spatial_shape\<close> of \<open>label\<close>. And \<open>LoadImageExd\<close>,
  in the module as shipped, converts nothing at all: on \<open>{"image": array}\<close> it raises
  NameError at line 87, where \<open>np\<close> is not bound.
\<close>

theorem array_becomes_tensor_with_metadata_counterexample:
  "map_of (recs ex_shared_state ! 0) ''image'' = Some (VArr 0) \<and>
   shape (arrays ex_shared_state ! 0) = [10, 10, 3] \<and>
   LoadImageTensord_call ex_env ex_tensord_both (Rec 0) ex_shared_state
     = (Inr (Rec 1), ex_shared_state1) \<and>
   map_of (recs ex_shared_state1 ! 1) ''image'' = Some (VMetaTensor (VArr 0) (VDict 0)) \<and>
   map_of (dicts ex_shared_state1 ! 0) ''spatial_shape'' = Some (VTuple [4, 4]) \<and>
   LoadImageExd_call ex_env ex_exd_image (Rec 0) None ex_array_state
     = (Inl (NameError ''np''), ex_array_copied)"
  by (simp add: run_defs ex_defs ex_tensord_both_def ex_exd_image_def ex_shared_state_def
      ex_shared_state1_def ex_array_state_def ex_array_copied_def)

text \<open>
  Claim C3, amended. Let a target key hold an array and let the call return. Let the
  values found under the metadata keys of the target keys that are converted (in
  \<open>LoadImageTensord\<close> those that hold no path string, in \<open>LoadImageExd\<close> those
  that hold an array) be mappings of the store, no two of these keys bound to one mapping;
  for \<open>LoadImageExd\<close>, let also distinct such target keys have distinct metadata keys.
  Let the constructor of the framework leave the three entries as it finds them. Then the
  returned dictionary binds the key to a tensor over the same array, which is unchanged,
  and the tensor's metadata mapping has \<open>spatial_shape\<close> equal to the shape without its
  last axis, \<open>original_channel_dim\<close> equal to \<open>-1\<close> and \<open>original_affine\<close> equal
  to \<open>None\<close>. \<open>LoadImageExd\<close> wraps the array itself, and so does
  \<open>LoadImageTensord\<close> when no key is listed twice. A call of \<open>LoadImageExd\<close> on
  such a record returns only where \<open>np\<close> is bound in the namespace of the module.
\<close>

theorem array_becomes_tensor_with_metadata:
  assumes "dict_at s data = Some al" and "map_of al k = Some (VArr a)" and "keeps_entries E"
  shows "(\<forall>d' s'. k \<in> set (keys tself) \<and>
            separate al (length (dicts s)) (tensor_meta_keys E tself al) \<and>
            LoadImageTensord_call E tself data s = (Inr d', s') \<longrightarrow>
            d' = Rec (length (recs s)) \<and>
            tensor_outcome s s' (length (recs s)) k a \<and>
            (distinct (keys tself) \<longrightarrow>
               (\<exists>m. map_of (recs s' ! length (recs s)) k = Some (VMetaTensor (VArr a) (VDict m)))))
       \<and> (\<forall>d' s'. k \<in> set (keysx xself) \<and>
            separate al (length (dicts s)) (exd_meta_keys xself al) \<and>
            exd_keys_apart xself al \<and>
            LoadImageExd_call E xself data reader s = (Inr d', s') \<longrightarrow>
            ''np'' \<in> set (injected E) \<and>
            d' = Rec (length (recs s)) \<and>
            tensor_outcome s s' (length (recs s)) k a \<and>
            (\<exists>m. map_of (recs s' ! length (recs s)) k = Some (VMetaTensor (VArr a) (VDict m))))"
proof (intro conjI allI impI; elim conjE)
  let ?d = "length (recs s)"
  let ?s0 = "s\<lparr>recs := recs s @ [al]\<rparr>"
  have v0: "map_of (recs ?s0 ! ?d) k = Some (VArr a)" using assms(2) by simp
  {
    fix d' s'
    assume k: "k \<in> set (keys tself)"
      and sep: "separate al (length (dicts s)) (tensor_meta_keys E tself al)"
      and c: "LoadImageTensord_call E tself data s = (Inr d', s')"
    from LoadImageTensord_call_direct [OF assms(1) c k assms(2)]
    have d': "d' = Rec ?d" and l: "LoadImageTensord_loop E ?d (keys tself) True ?s0 = (Inr False, s')"
      by simp_all
    show "d' = Rec ?d" by (rule d')
    have sep0: "separate (recs ?s0 ! ?d) (length (dicts ?s0))
        ((\<lambda>j. j @ ''_'' @ PostFix_meta E) `
           {j \<in> set (keys tself). \<exists>w. map_of (recs ?s0 ! ?d) j = Some w \<and> \<not> is_path w})"
      using sep by (simp add: tensor_meta_keys_def direct_keys_def)
    from LoadImageTensord_loop_shaped [OF l k v0 sep0 assms(3)] obtain m where
      m: "converted s' ?d k (k @ ''_'' @ PostFix_meta E) a m" "shaped s' m a" by blast
    have "arrays s' = arrays s"
      using frame_LoadImageTensord_loop [OF l subset_refl] by (simp add: frame_def frame0_def)
    from tensor_outcomeI [OF m this] show "tensor_outcome s s' ?d k a" .
    assume "distinct (keys tself)"
    from LoadImageTensord_loop_wraps [OF l this k v0]
    show "\<exists>m. map_of (recs s' ! ?d) k = Some (VMetaTensor (VArr a) (VDict m))" .
  }
  fix d' s'
  assume k: "k \<in> set (keysx xself)"
    and sep: "separate al (length (dicts s)) (exd_meta_keys xself al)"
    and apart: "exd_keys_apart xself al"
    and c: "LoadImageExd_call E xself data reader s = (Inr d', s')"
  let ?iks = "enumerate 0 (keysx xself)"
  note sh = LoadImageExd_call_shared [OF assms(1) c k assms(2)]
  show "d' = Rec ?d" by (rule sh(1))
  note l = sh(2)
  show "''np'' \<in> set (injected E)"
  proof (rule ccontr)
    assume np: "''np'' \<notin> set (injected E)"
    from k have "?iks \<noteq> []" by (cases "keysx xself") auto
    then obtain ik iks where iks: "?iks = ik # iks" by (cases ?iks) auto
    have "?d < length (recs ?s0)" by simp
    from LoadImageExd_loop_shipped [OF np this, of xself ik iks False] l
    show False unfolding iks by (simp split: option.splits)
  qed
  have ks: "k \<in> snd ` set ?iks" using k by simp
  have sep0: "separate (recs ?s0 ! ?d) (length (dicts ?s0))
      (exd_meta_key xself `
         {ik \<in> set ?iks. \<exists>w. map_of (recs ?s0 ! ?d) (snd ik) = Some w \<and> is_ndarray w})"
    using sep by (simp add: exd_meta_keys_def array_keys_def)
  have ap: "\<forall>ik\<in>{ik \<in> set ?iks. \<exists>w. map_of (recs ?s0 ! ?d) (snd ik) = Some w \<and> is_ndarray w}.
      \<forall>ik'\<in>{ik \<in> set ?iks. \<exists>w. map_of (recs ?s0 ! ?d) (snd ik) = Some w \<and> is_ndarray w}.
        exd_meta_key xself ik = exd_meta_key xself ik' \<longrightarrow> snd ik = snd ik'"
    using apart unfolding exd_keys_apart_def array_keys_def by simp
  from LoadImageExd_loop_shaped [OF l ks v0 sep0 ap assms(3)] obtain m where
    m: "map_of (recs s' ! ?d) k = Some (VMetaTensor (VArr a) (VDict m))" "populated s' m"
      "shaped s' m a"
    by blast
  have ar: "arrays s' = arrays s"
    using frame0_LoadImageExd_loop [OF l subset_refl] by (simp add: frame0_def)
  from m ar show "tensor_outcome s s' ?d k a"
    unfolding tensor_outcome_def populated_def shaped_def by auto
  from m(1) show "\<exists>m. map_of (recs s' ! ?d) k = Some (VMetaTensor (VArr a) (VDict m))"
    by blast
qed

theorem array_becomes_tensor_with_metadata_witness:
  "LoadImageTensord_call ex_env ex_tensord (Rec 0) ex_array_state = (Inr (Rec 1), ex_array_state1) \<and>
   LoadImageExd_call ex_env_patched ex_exd_image (Rec 0) None ex_array_state
     = (Inr (Rec 1), ex_array_state1) \<and>
   tensor_outcome ex_array_state ex_array_state1 1 ''image'' 0 \<and>
   (\<exists>m. map_of (recs ex_array_state1 ! 1) ''image'' = Some (VMetaTensor (VArr 0) (VDict m))) \<and>
   shape (arrays ex_array_state ! 0) = [10, 10, 3] \<and>
   map_of (dicts ex_array_state1 ! 0) ''spatial_shape'' = Some (VTuple [10, 10]) \<and>
   map_of (dicts ex_array_state1 ! 0) ''original_channel_dim'' = Some (VInt (- 1)) \<and>
   map_of (dicts ex_array_state1 ! 0) ''original_affine'' = Some VNone"
proof -
  have d: "dict_at ex_array_state (Rec 0) = Some [(''image'', VArr 0)]"
    and v: "map_of [(''image'', VArr 0)] ''image'' = Some (VArr 0)"
    by (simp_all add: ex_array_state_def)
  have la: "length (recs ex_array_state) = 1" "length (dicts ex_array_state) = 0"
    by (simp_all add: ex_array_state_def)
  have t: "LoadImageTensord_call ex_env ex_tensord (Rec 0) ex_array_state = (Inr (Rec 1), ex_array_state1)"
    by (simp add: run_defs ex_defs ex_tensord_def ex_array_state_def ex_array_state1_def)
  have x: "LoadImageExd_call ex_env_patched ex_exd_image (Rec 0) None ex_array_state
      = (Inr (Rec 1), ex_array_state1)"
    by (simp add: run_defs ex_defs ex_exd_image_def ex_array_state_def ex_array_state1_def)
  have kt: "''image'' \<in> set (keys ex_tensord)" by (simp add: ex_tensord_def)
  have st: "separate [(''image'', VArr 0)] 0 (tensor_meta_keys ex_env ex_tensord [(''image'', VArr 0)])"
    by (simp add: separate_def tensor_meta_keys_def direct_keys_def is_path_def
        ex_env_def ex_tensord_def)
  have dt: "distinct (keys ex_tensord)" by (simp add: ex_tensord_def)
  have kx: "''image'' \<in> set (keysx ex_exd_image)" by (simp add: ex_exd_image_def)
  have sx: "separate [(''image'', VArr 0)] 0 (exd_meta_keys ex_exd_image [(''image'', VArr 0)])"
    by (auto simp: separate_def exd_meta_keys_def array_keys_def exd_meta_key_def is_ndarray_def
        ex_exd_image_def)
  have ax: "exd_keys_apart ex_exd_image [(''image'', VArr 0)]"
    by (auto simp: exd_keys_apart_def array_keys_def exd_meta_key_def is_ndarray_def
        ex_exd_image_def)
  note th1 = array_becomes_tensor_with_metadata [OF d v keeps_entries_ex_env,
      of ex_tensord ex_exd_image None, unfolded la]
  note th2 = array_becomes_tensor_with_metadata [OF d v keeps_entries_ex_env_patched,
      of ex_tensord ex_exd_image None, unfolded la]
  from th1 kt st t have 1: "tensor_outcome ex_array_state ex_array_state1 1 ''image'' 0" by blast
  from th1 kt st t dt
  have 5: "\<exists>m. map_of (recs ex_array_state1 ! 1) ''image'' = Some (VMetaTensor (VArr 0) (VDict m))"
    by blast
  from th2 kx sx ax x have 2: "tensor_outcome ex_array_state ex_array_state1 1 ''image'' 0" by blast
  have 3: "shape (arrays ex_array_state ! 0) = [10, 10, 3]" by (simp add: ex_array_state_def)
  from 2 have 4: "map_of (dicts ex_array_state1 ! 0) ''spatial_shape'' = Some (VTuple [10, 10]) \<and>
      map_of (dicts ex_array_state1 ! 0) ''original_channel_dim'' = Some (VInt (- 1)) \<and>
      map_of (dicts ex_array_state1 ! 0) ''original_affine'' = Some VNone"
    unfolding tensor_outcome_def by (auto simp: ex_array_state1_def ex_array_state_def)
  from t x 1 3 4 5 show ?thesis by simp
qed

section \<open>When LoadImageExd calls the inherited loader\<close>




section \<open>What NormalizeLabeld stores\<close>

text \<open>
  Claim C5 as stated fails: the assignment converts the replacement value to the dtype of
  the array, so \<open>value = 0.5\<close> on an \<open>int64\<close> array stores \<open>0\<close>, not \<open>0.5\<close>; and on
  an array that is not writeable the call raises ValueError and there is no output.
\<close>

theorem NormalizeLabeld_value_counterexample:
  "value ex_normalize_half = PyFloat (1 / 2) \<and>
   arrays ex_label_state = [NDArray [4] Int64 True [- 1, 0, 2, 5]] \<and>
   NormalizeLabeld_call ex_env ex_normalize_half (Rec 0) ex_label_state
     = (Inr (Rec 1), ex_label_half) \<and>
   map_of (recs ex_label_half ! 1) ''label'' = Some (VArr 0) \<and>
   arrays ex_label_half = [NDArray [4] Int64 True [- 1, 0, 0, 0]] \<and>
   NormalizeLabeld_call ex_env ex_normalize (Rec 0) ex_readonly_state
     = (Inl ValueError, ex_readonly_copied)"
  by (simp add: run_defs np_cast_def binarize_def binarized_def ex_env_def
      ex_normalize_def ex_normalize_half_def ex_label_state_def ex_label_half_def
      ex_readonly_state_def ex_readonly_copied_def)

text \<open>
  Claim C5, amended. The call returns when every target key holds a writeable array
  whose dtype takes the replacement value. In a call that returns and whose target keys
  all hold arrays, each of these arrays is writeable, its dtype takes the value, the key
  is bound to the same array as before, and the array has its shape and dtype and, at
  every position, the converted value where the element was positive and the element
  itself where it was not. The converted value is the replacement value itself when that
  is an integer in the range of an integer dtype.
\<close>

theorem NormalizeLabeld_stores_converted_value:
  assumes "dict_at s data = Some al"
  shows "((\<forall>k\<in>set (keysn self). \<exists>r c. map_of al k = Some (VArr r) \<and> r < length (arrays s) \<and>
             writeable (arrays s ! r) \<and> np_cast E (dtype (arrays s ! r)) (value self) = Inr c) \<longrightarrow>
          (\<exists>s'. NormalizeLabeld_call E self data s = (Inr (Rec (length (recs s))), s')))
       \<and> (\<forall>d' s' k r.
            NormalizeLabeld_call E self data s = (Inr d', s') \<and>
            (\<forall>j\<in>set (keysn self). \<exists>r'. map_of al j = Some (VArr r')) \<and>
            k \<in> set (keysn self) \<and> map_of al k = Some (VArr r) \<longrightarrow>
            d' = Rec (length (recs s)) \<and>
            map_of (recs s' ! length (recs s)) k = Some (VArr r) \<and>
            r < length (arrays s) \<and> length (arrays s') = length (arrays s) \<and>
            writeable (arrays s ! r) \<and>
            (\<exists>c. np_cast E (dtype (arrays s ! r)) (value self) = Inr c \<and>
                 arrays s' ! r =
                   NDArray (shape (arrays s ! r)) (dtype (arrays s ! r)) True
                     (map (\<lambda>x. if x > 0 then c else x) (elems (arrays s ! r)))))
       \<and> (\<forall>i lo hi dt. value self = PyInt i \<and> int_range dt = Some (lo, hi) \<and> lo \<le> i \<and> i \<le> hi \<longrightarrow>
            np_cast E dt (value self) = Inr (of_int i))"
proof (intro conjI allI impI; (elim conjE)?)
  assume a: "\<forall>k\<in>set (keysn self). \<exists>r c. map_of al k = Some (VArr r) \<and> r < length (arrays s) \<and>
             writeable (arrays s ! r) \<and> np_cast E (dtype (arrays s ! r)) (value self) = Inr c"
  have "\<exists>K. fills E (value self) al (arrays s) (keysn self) (\<lambda>r. None) = Some K"
    by (rule fills_total) (use a in \<open>simp add: cast_of_VArr\<close>)
  then show "\<exists>s'. NormalizeLabeld_call E self data s = (Inr (Rec (length (recs s))), s')"
    by (auto simp: NormalizeLabeld_call_Inr [OF assms])
next
  fix d' s' k r
  assume c: "NormalizeLabeld_call E self data s = (Inr d', s')"
    and all: "\<forall>j\<in>set (keysn self). \<exists>r'. map_of al j = Some (VArr r')"
    and k: "k \<in> set (keysn self)" and r: "map_of al k = Some (VArr r)"
  from c obtain K where d': "d' = Rec (length (recs s))"
    and f: "fills E (value self) al (arrays s) (keysn self) (\<lambda>r. None) = Some K"
    and s': "s' = s\<lparr>recs := recs s @ [al], arrays := filled K (arrays s)\<rparr>"
    by (auto simp: NormalizeLabeld_call_Inr [OF assms])
  have "\<forall>r c0. (\<lambda>r. None :: rat option) r = Some c0 \<longrightarrow>
          cast_of E (VArr r) (arrays s ! r) (value self) = Inr c0"
    by simp
  note fa = fills_arrays [OF f all this]
  from fa k r have rl: "r < length (arrays s)" and kr: "K r \<noteq> None" by blast+
  from kr obtain c where kc: "K r = Some c" by auto
  with fa have "cast_of E (VArr r) (arrays s ! r) (value self) = Inr c" by blast
  then have w: "writeable (arrays s ! r)"
    and nc: "np_cast E (dtype (arrays s ! r)) (value self) = Inr c"
    by (simp_all add: cast_of_VArr)
  have arr: "arrays s' ! r =
      NDArray (shape (arrays s ! r)) (dtype (arrays s ! r)) True
        (map (\<lambda>x. if x > 0 then c else x) (elems (arrays s ! r)))"
    using rl kc w by (simp add: s' nth_filled binarized_def binarize_def)
  show "d' = Rec (length (recs s))" by (rule d')
  show "map_of (recs s' ! length (recs s)) k = Some (VArr r)" using r by (simp add: s')
  show "r < length (arrays s)" by (rule rl)
  show "length (arrays s') = length (arrays s)" by (simp add: s')
  show "writeable (arrays s ! r)" by (rule w)
  show "\<exists>c. np_cast E (dtype (arrays s ! r)) (value self) = Inr c \<and>
            arrays s' ! r =
              NDArray (shape (arrays s ! r)) (dtype (arrays s ! r)) True
                (map (\<lambda>x. if x > 0 then c else x) (elems (arrays s ! r)))"
    using nc arr by blast
next
  fix i lo hi dt
  assume "value self = PyInt i" "int_range dt = Some (lo, hi)" "lo \<le> i" "i \<le> hi"
  then show "np_cast E dt (value self) = Inr (of_int i)" by (simp add: np_cast_def)
qed

theorem NormalizeLabeld_stores_converted_value_witness:
  "value ex_normalize = PyInt 1 \<and>
   arrays ex_label_state = [NDArray [4] Int64 True [- 1, 0, 2, 5]] \<and>
   NormalizeLabeld_call ex_env ex_normalize (Rec 0) ex_label_state = (Inr (Rec 1), ex_label_state1) \<and>
   np_cast ex_env Int64 (PyInt 1) = Inr 1 \<and>
   arrays ex_label_state1 ! 0 = NDArray [4] Int64 True [- 1, 0, 1, 1]"
proof -
  have d: "dict_at ex_label_state (Rec 0) = Some [(''label'', VArr 0)]"
    by (simp add: ex_label_state_def)
  note th = NormalizeLabeld_stores_converted_value [OF d, of ex_normalize ex_env]
  have v: "value ex_normalize = PyInt 1" by (simp add: ex_normalize_def)
  have ks: "keysn ex_normalize = [''label'']" by (simp add: ex_normalize_def)
  have as: "arrays ex_label_state = [NDArray [4] Int64 True [- 1, 0, 2, 5]]"
    by (simp add: ex_label_state_def)
  have r: "- (2 ^ 63) \<le> (1::int)" "(1::int) \<le> 2 ^ 63 - 1" by simp_all
  from th v r have nc: "np_cast ex_env Int64 (PyInt 1) = Inr 1"
    by (metis int_range.simps(4) of_int_1)
  from th have "\<exists>s'. NormalizeLabeld_call ex_env ex_normalize (Rec 0) ex_label_state
      = (Inr (Rec (length (recs ex_label_state))), s')"
    using nc by (simp add: ks as v)
  then obtain s' where c: "NormalizeLabeld_call ex_env ex_normalize (Rec 0) ex_label_state
      = (Inr (Rec (length (recs ex_label_state))), s')"
    by blast
  from th c have "\<exists>c. np_cast ex_env (dtype (arrays ex_label_state ! 0)) (value ex_normalize) = Inr c \<and>
      arrays s' ! 0 = NDArray (shape (arrays ex_label_state ! 0)) (dtype (arrays ex_label_state ! 0)) True
        (map (\<lambda>x. if x > 0 then c else x) (elems (arrays ex_label_state ! 0)))"
    by (simp add: ks)
  with nc have a: "arrays s' ! 0 = NDArray [4] Int64 True [- 1, 0, 1, 1]"
    by (simp add: as v)
  from c ex_label_run have "s' = ex_label_state1" by simp
  with a v as nc ex_label_run show ?thesis by simp
qed

section \<open>Path strings\<close>

text \<open>
  Claim C6. A key bound to a path string keeps that binding through the loop of
  \<open>LoadImageTensord\<close>, whatever the loop does to the other keys and however it ends;
  and when \<open>LoadImageExd\<close> found an array under some target key and returns, the
  dictionary it returns still binds the key to the path string.
\<close>

theorem path_strings_preserved:
  assumes "dict_at s data = Some al" and "map_of al k = Some (VStr p)"
  shows "(\<forall>r s1. LoadImageTensord_loop E (length (recs s)) (keys tself) True
                  (s\<lparr>recs := recs s @ [al]\<rparr>) = (r, s1) \<longrightarrow>
            map_of (recs s1 ! length (recs s)) k = Some (VStr p))
       \<and> (\<forall>d' s'. (\<exists>j\<in>set (keysx xself). \<exists>a. map_of al j = Some (VArr a)) \<and>
               LoadImageExd_call E xself data reader s = (Inr d', s') \<longrightarrow>
            d' = Rec (length (recs s)) \<and> length (recs s) < length (recs s') \<and>
            map_of (recs s' ! length (recs s)) k = Some (VStr p))"
proof (intro conjI allI impI)
  let ?d = "length (recs s)"
  let ?s0 = "s\<lparr>recs := recs s @ [al]\<rparr>"
  have al: "map_of (recs ?s0 ! ?d) k = Some (VStr p)"
    using assms(2) by simp
  {
    fix r s1
    assume "LoadImageTensord_loop E ?d (keys tself) True ?s0 = (r, s1)"
    from frame_strings [OF frame_LoadImageTensord_loop [OF this subset_refl] al]
    show "map_of (recs s1 ! ?d) k = Some (VStr p)" .
  }
  fix d' s'
  assume h: "(\<exists>j\<in>set (keysx xself). \<exists>a. map_of al j = Some (VArr a)) \<and>
               LoadImageExd_call E xself data reader s = (Inr d', s')"
  then have arr: "\<exists>j\<in>set (keysx xself). \<exists>a. map_of al j = Some (VArr a)"
    and call: "LoadImageExd_call E xself data reader s = (Inr d', s')"
    by blast+
  from LoadImageExd_call_direct [OF assms(1) arr call] obtain r0 where
    l: "LoadImageExd_loop E xself ?d (enumerate 0 (keysx xself)) False ?s0 = (r0, s')" and
    r0: "case r0 of Inl e \<Rightarrow> Inr d' = (Inl e :: error + dref)
         | Inr b \<Rightarrow> b \<and> Inr d' = (Inr (Rec ?d) :: error + dref)"
    by blast
  from r0 show d': "d' = Rec ?d" by (cases r0) auto
  note f = frame0_LoadImageExd_loop [OF l subset_refl]
  from frame0_strings [OF f al] show "map_of (recs s' ! ?d) k = Some (VStr p)" .
  from f show "?d < length (recs s')" by (simp add: frame0_def)
qed

theorem path_strings_preserved_witness:
  "LoadImageTensord_loop ex_env 1 (keys ex_tensord_both) True ex_image_copied
     = (Inl (NameError ''np''), ex_image_state1) \<and>
   map_of (recs ex_image_state1 ! 1) ''label'' = Some (VStr ''l.png'') \<and>
   LoadImageTensord_loop ex_env_patched 1 (keys ex_tensord_both) True ex_image_copied
     = (Inl IOError, ex_image_state2) \<and>
   map_of (recs ex_image_state2 ! 1) ''label'' = Some (VStr ''l.png'') \<and>
   LoadImageExd_call ex_env_patched ex_exd (Rec 0) None ex_image_state
     = (Inr (Rec 1), ex_image_state1)"
proof -
  have d: "dict_at ex_image_state (Rec 0) = Some [(''image'', VArr 0), (''label'', VStr ''l.png'')]"
    by (simp add: ex_image_state_def)
  have v: "map_of [(''image'', VArr 0), (''label'', VStr ''l.png'')] ''label'' = Some (VStr ''l.png'')"
    by simp
  have s0: "ex_image_state\<lparr>recs := recs ex_image_state @ [[(''image'', VArr 0), (''label'', VStr ''l.png'')]]\<rparr>
      = ex_image_copied"
    "length (recs ex_image_state) = 1"
    by (simp_all add: ex_image_state_def ex_image_copied_def)
  have t: "LoadImageTensord_loop ex_env 1 (keys ex_tensord_both) True ex_image_copied
     = (Inl (NameError ''np''), ex_image_state1)"
    by (simp add: run_defs ex_defs ex_tensord_both_def ex_image_copied_def ex_image_state1_def)
  have t2: "LoadImageTensord_loop ex_env_patched 1 (keys ex_tensord_both) True ex_image_copied
     = (Inl IOError, ex_image_state2)"
    by (simp add: run_defs ex_defs ex_tensord_both_def ex_image_copied_def ex_image_state1_def
        ex_image_state2_def)
  have x: "LoadImageExd_call ex_env_patched ex_exd (Rec 0) None ex_image_state
      = (Inr (Rec 1), ex_image_state1)"
    by (simp add: run_defs ex_defs ex_exd_def ex_image_state_def ex_image_state1_def)
  have a: "\<exists>j\<in>set (keysx ex_exd). \<exists>a. map_of [(''image'', VArr 0), (''label'', VStr ''l.png'')] j = Some (VArr a)"
    by (simp add: ex_exd_def)
  note th1 = path_strings_preserved [OF d v, of ex_env ex_tensord_both ex_exd None, unfolded s0]
  note th2 = path_strings_preserved [OF d v, of ex_env_patched ex_tensord_both ex_exd None, unfolded s0]
  from th1 t have 1: "map_of (recs ex_image_state1 ! 1) ''label'' = Some (VStr ''l.png'')"
    by blast
  from th2 t2 have 2: "map_of (recs ex_image_state2 ! 1) ''label'' = Some (VStr ''l.png'')"
    by blast
  from th2 a x have 3: "map_of (recs ex_image_state1 ! 1) ''label'' = Some (VStr ''l.png'')"
    by blast
  from t t2 x 1 2 3 show ?thesis by simp
qed

section \<open>Applying NormalizeLabeld twice\<close>

text \<open>
  Claim C7. After a call of \<open>NormalizeLabeld\<close> that returned, a second call on the
  returned dictionary returns as well, its dictionary has the same bindings, and no array
  and no metadata mapping has changed.
\<close>

theorem NormalizeLabeld_idempotent:
  assumes "NormalizeLabeld_call E self data s = (Inr d1, s1)"
  shows "\<exists>s2 al. NormalizeLabeld_call E self d1 s1 = (Inr (Rec (length (recs s1))), s2) \<and>
            dict_at s1 d1 = Some al \<and> dict_at s2 (Rec (length (recs s1))) = Some al \<and>
            arrays s2 = arrays s1 \<and> dicts s2 = dicts s1"
proof -
  from assms obtain d s0 where "dict_copy data s = (Inr d, s0)"
    unfolding NormalizeLabeld_call_def bind_Inr_iff by blast
  then obtain al where al: "dict_at s data = Some al" by (auto simp: dict_copy_Inr)
  from assms obtain K where d1: "d1 = Rec (length (recs s))"
    and f: "fills E (value self) al (arrays s) (keysn self) (\<lambda>r. None) = Some K"
    and s1: "s1 = s\<lparr>recs := recs s @ [al], arrays := filled K (arrays s)\<rparr>"
    by (auto simp: NormalizeLabeld_call_Inr [OF al])
  have al1: "dict_at s1 d1 = Some al" by (simp add: d1 s1)
  let ?s2 = "s1\<lparr>recs := recs s1 @ [al], arrays := filled K (arrays s1)\<rparr>"
  have f1: "fills E (value self) al (arrays s1) (keysn self) (\<lambda>r. None) = Some K"
    using f by (simp add: s1 fills_filled)
  have c2: "NormalizeLabeld_call E self d1 s1 = (Inr (Rec (length (recs s1))), ?s2)"
    using f1 by (simp add: NormalizeLabeld_call_Inr [OF al1])
  have "arrays ?s2 = arrays s1" by (simp add: s1)
  moreover have "dict_at ?s2 (Rec (length (recs s1))) = Some al" by simp
  moreover have "dicts ?s2 = dicts s1" by simp
  ultimately show ?thesis using c2 al1 by blast
qed

theorem NormalizeLabeld_idempotent_witness:
  "NormalizeLabeld_call ex_env ex_normalize (Rec 0) ex_label_state = (Inr (Rec 1), ex_label_state1) \<and>
   (\<exists>s2. NormalizeLabeld_call ex_env ex_normalize (Rec 1) ex_label_state1 = (Inr (Rec 2), s2) \<and>
         dict_at s2 (Rec 2) = Some [(''label'', VArr 0)] \<and>
         arrays s2 = [NDArray [4] Int64 True [- 1, 0, 1, 1]])"
proof -
  have c: "NormalizeLabeld_call ex_env ex_normalize (Rec 0) ex_label_state = (Inr (Rec 1), ex_label_state1)"
    by (simp add: run_defs np_cast_def binarize_def binarized_def ex_env_def ex_normalize_def
      ex_label_state_def ex_label_state1_def)
  from NormalizeLabeld_idempotent [OF c] show ?thesis
    using c by (auto simp: ex_label_state1_def numeral_2_eq_2)
qed

section \<open>The caller's dictionary\<close>

text \<open>
  Claim C8 as stated fails: the copy is shallow, so a value of the record that is the
  record itself is shared with the copy as every other value is. After
  \<open>data["image_meta_dict"] = data\<close> the conversion block of \<open>LoadImageTensord\<close>
  finds the caller's dictionary under the metadata key of \<open>image\<close> and assigns
  \<open>spatial_shape\<close>, \<open>original_channel_dim\<close> and \<open>original_affine\<close> in it,
  whether the constructor that runs afterwards returns or raises.
\<close>

theorem caller_dictionary_counterexample:
  "dict_at ex_self_state (Dict 0) = Some [(''image'', VArr 0), (''image_meta_dict'', VDict 0)] \<and>
   LoadImageTensord_call ex_env ex_tensord (Dict 0) ex_self_state = (Inr (Rec 0), ex_self_state1) \<and>
   dict_at ex_self_state1 (Dict 0) \<noteq> dict_at ex_self_state (Dict 0) \<and>
   (case dict_at ex_self_state1 (Dict 0) of
      None \<Rightarrow> False
    | Some al \<Rightarrow> map_of al ''spatial_shape'' = Some (VTuple [10, 10])) \<and>
   LoadImageTensord_call ex_env_strict ex_tensord (Dict 0) ex_self_state
     = (Inl RuntimeError, ex_self_state2) \<and>
   dict_at ex_self_state2 (Dict 0) \<noteq> dict_at ex_self_state (Dict 0)"
  by (simp add: run_defs ex_defs ex_env_strict_def ex_tensord_def ex_self_state_def
      ex_self_state1_def ex_self_state2_def)

text \<open>
  Claim C8, amended. Let the caller not have bound the dictionary it passes under the
  metadata key of a target key that the loader converts, and let the loaders that come
  from outside (the default loader, the inherited \<open>__call__\<close>) leave that dictionary
  alone. Then none of the three transforms changes the caller's dictionary: at the end of
  the call, and also when the call raises, it has the bindings it had. The dictionary a
  transform returns is another object; \<open>NormalizeLabeld\<close> returns the very same
  bindings, hence the same arrays, and a loader that converted an array returns the
  caller's bindings for every key that is not a target key.
\<close>

theorem caller_dictionary_unchanged:
  assumes "dict_at s data = Some al"
  shows "(\<forall>r s'. NormalizeLabeld_call E nself data s = (r, s') \<longrightarrow>
            dict_at s' data = Some al \<and>
            (\<forall>d'. r = Inr d' \<longrightarrow> d' \<noteq> data \<and> dict_at s' d' = Some al))
       \<and> ((\<forall>f. load_image_d tself = Some f \<longrightarrow> keeps_record data (f (Rec (length (recs s))))) \<and>
           \<not> own_metadata al data (tensor_meta_keys E tself al) \<longrightarrow>
           (\<forall>r s'. LoadImageTensord_call E tself data s = (r, s') \<longrightarrow>
              dict_at s' data = Some al \<and>
              (\<forall>d'. r = Inr d' \<and> (\<exists>j\<in>set (keys tself). \<exists>a. map_of al j = Some (VArr a)) \<longrightarrow>
                 d' \<noteq> data \<and> d' = Rec (length (recs s)) \<and>
                 (\<forall>k v. k \<notin> set (keys tself) \<and> map_of al k = Some v \<longrightarrow>
                    map_of (recs s' ! length (recs s)) k = Some v))))
       \<and> (keeps_record data (LoadImaged_call xself (Rec (length (recs s))) reader) \<and>
           \<not> own_metadata al data (exd_meta_keys xself al) \<longrightarrow>
           (\<forall>r s'. LoadImageExd_call E xself data reader s = (r, s') \<longrightarrow>
              dict_at s' data = Some al \<and>
              (\<forall>d'. r = Inr d' \<and> (\<exists>j\<in>set (keysx xself). \<exists>a. map_of al j = Some (VArr a)) \<longrightarrow>
                 d' \<noteq> data \<and> d' = Rec (length (recs s)) \<and>
                 (\<forall>k v. k \<notin> set (keysx xself) \<and> map_of al k = Some v \<longrightarrow>
                    map_of (recs s' ! length (recs s)) k = Some v))))"
proof (intro conjI allI impI; (elim conjE bexE exE)?)
  have fresh: "Rec (length (recs s)) \<noteq> data"
    using assms by (cases data) auto
  {
    fix r s' assume c: "NormalizeLabeld_call E nself data s = (r, s')"
    note f = NormalizeLabeld_call_frame [OF assms c]
    show "dict_at s' data = Some al"
      using assms f(1,2) by (cases data) (auto simp: nth_append)
    fix d' assume r: "r = Inr d'"
    from f(4) [OF r] have d': "d' = Rec (length (recs s))" .
    from d' fresh show "d' \<noteq> data" by simp
    from d' f(1) show "dict_at s' d' = Some al" by simp
  }
  {
    fix r s'
    assume k: "\<forall>f. load_image_d tself = Some f \<longrightarrow> keeps_record data (f (Rec (length (recs s))))"
      and own: "\<not> own_metadata al data (tensor_meta_keys E tself al)"
      and c: "LoadImageTensord_call E tself data s = (r, s')"
    show "dict_at s' data = Some al"
      by (rule LoadImageTensord_call_unchanged [OF assms _ own c]) (use k in blast)
    fix d' j a
    assume r: "r = Inr d'" and j: "j \<in> set (keys tself)" "map_of al j = Some (VArr a)"
    from c r have c': "LoadImageTensord_call E tself data s = (Inr d', s')" by simp
    note sh = LoadImageTensord_call_shared [OF assms c' j]
    from sh(1) fresh show "d' \<noteq> data" by simp
    from sh(1) show "d' = Rec (length (recs s))" .
    fix k v assume "k \<notin> set (keys tself)" "map_of al k = Some v"
    from sh(2) [OF this] show "map_of (recs s' ! length (recs s)) k = Some v" .
  }
  {
    fix r s'
    assume k: "keeps_record data (LoadImaged_call xself (Rec (length (recs s))) reader)"
      and own: "\<not> own_metadata al data (exd_meta_keys xself al)"
      and c: "LoadImageExd_call E xself data reader s = (r, s')"
    from LoadImageExd_call_unchanged [OF assms k own c]
    show "dict_at s' data = Some al" .
    fix d' j a
    assume r: "r = Inr d'" and j: "j \<in> set (keysx xself)" "map_of al j = Some (VArr a)"
    from c r have c': "LoadImageExd_call E xself data reader s = (Inr d', s')" by simp
    note sh = LoadImageExd_call_shared [OF assms c' j]
    from sh(1) fresh show "d' \<noteq> data" by simp
    from sh(1) show "d' = Rec (length (recs s))" .
    fix k v assume "k \<notin> set (keysx xself)" "map_of al k = Some v"
    from sh(3) [OF this] show "map_of (recs s' ! length (recs s)) k = Some v" .
  }
qed

theorem caller_dictionary_unchanged_witness:
  "NormalizeLabeld_call ex_env ex_normalize (Rec 0) ex_label_state = (Inr (Rec 1), ex_label_state1) \<and>
   dict_at ex_label_state1 (Rec 0) = dict_at ex_label_state (Rec 0) \<and>
   LoadImageTensord_call ex_env ex_tensord (Rec 0) ex_array_state = (Inr (Rec 1), ex_array_state1) \<and>
   dict_at ex_array_state1 (Rec 0) = dict_at ex_array_state (Rec 0) \<and>
   LoadImageExd_call ex_env ex_exd_image (Rec 0) None ex_array_state
     = (Inl (NameError ''np''), ex_array_copied) \<and>
   dict_at ex_array_copied (Rec 0) = dict_at ex_array_state (Rec 0) \<and>
   LoadImageExd_call ex_env_patched ex_exd_image (Rec 0) None ex_array_state
     = (Inr (Rec 1), ex_array_state1)"
proof -
  have dl: "dict_at ex_label_state (Rec 0) = Some [(''label'', VArr 0)]"
    by (simp add: ex_label_state_def)
  have da: "dict_at ex_array_state (Rec 0) = Some [(''image'', VArr 0)]"
    by (simp add: ex_array_state_def)
  have la: "length (recs ex_array_state) = 1" by (simp add: ex_array_state_def)
  have n: "NormalizeLabeld_call ex_env ex_normalize (Rec 0) ex_label_state = (Inr (Rec 1), ex_label_state1)"
    by (rule ex_label_run)
  have t: "LoadImageTensord_call ex_env ex_tensord (Rec 0) ex_array_state = (Inr (Rec 1), ex_array_state1)"
    by (simp add: run_defs ex_defs ex_tensord_def ex_array_state_def ex_array_state1_def)
  have x: "LoadImageExd_call ex_env ex_exd_image (Rec 0) None ex_array_state
      = (Inl (NameError ''np''), ex_array_copied)"
    by (simp add: run_defs ex_defs ex_exd_image_def ex_array_state_def ex_array_copied_def)
  have x2: "LoadImageExd_call ex_env_patched ex_exd_image (Rec 0) None ex_array_state
      = (Inr (Rec 1), ex_array_state1)"
    by (simp add: run_defs ex_defs ex_exd_image_def ex_array_state_def ex_array_state1_def)
  have kt: "\<forall>f. load_image_d ex_tensord = Some f \<longrightarrow> keeps_record (Rec 0) (f (Rec (length (recs ex_array_state))))"
    using keeps_record_ex_loader [of 1 "Rec 0"] by (simp add: ex_tensord_def la)
  have kx: "keeps_record (Rec 0) (LoadImaged_call ex_exd_image (Rec (length (recs ex_array_state))) None)"
    using keeps_record_ex_parent [of 1 "Rec 0" None] by (simp add: ex_exd_image_def la)
  have own: "\<not> own_metadata al (Rec 0) MK" for al MK by (simp add: own_metadata_def)
  from caller_dictionary_unchanged [OF dl, of ex_env ex_normalize] n
  have 1: "dict_at ex_label_state1 (Rec 0) = dict_at ex_label_state (Rec 0)"
    unfolding dl by blast
  from caller_dictionary_unchanged [OF da, of ex_env _ ex_tensord] kt own t
  have 2: "dict_at ex_array_state1 (Rec 0) = dict_at ex_array_state (Rec 0)"
    unfolding da by blast
  from caller_dictionary_unchanged [OF da, of ex_env _ _ ex_exd_image None] kx own x
  have 3: "dict_at ex_array_copied (Rec 0) = dict_at ex_array_state (Rec 0)"
    unfolding da by blast
  from n t x x2 1 2 3 show ?thesis by simp
qed

section \<open>The metadata mapping\<close>

text \<open>
  Claim C9, on the code as it is. A round of either loop that runs the conversion block
  and completes has made the metadata key before it populated it: a key that was not
  bound is bound to a new, empty mapping, a key that was bound keeps its mapping, and in
  both cases the three assignments and then the constructor work on that mapping; so in
  a call that returns, a target key that held an array leaves the dictionary with a
  populated metadata mapping under its metadata key, the one its tensor carries.
  \<open>LoadImageTensord\<close> does this. \<open>LoadImageExd\<close> does it only where \<open>np\<close> is
  bound in the namespace of the module: in the module as shipped, whose first target key
  holds an array, the call raises NameError at line 87, before the block, and the copy
  has no metadata mapping.
\<close>

theorem metadata_created_then_populated:
  assumes "dict_at s data = Some al" and "map_of al k = Some (VArr a)"
  shows "(\<forall>d key ud st b st' v.
            LoadImageTensord_body E d key ud st = (Inr b, st') \<and>
            map_of (recs st ! d) key = Some v \<and> \<not> is_path v \<longrightarrow>
            created_then_populated E st st' d key (key @ ''_'' @ PostFix_meta E))
       \<and> (\<forall>d ik b st b' st' a'.
            LoadImageExd_body E xself d ik b st = (Inr b', st') \<and>
            map_of (recs st ! d) (snd ik) = Some (VArr a') \<longrightarrow>
            ''np'' \<in> set (injected E) \<and> fst ik < length (meta_key_postfix xself) \<and>
            created_then_populated E st st' d (snd ik) (exd_meta_key xself ik))
       \<and> (\<forall>d' s'. k \<in> set (keys tself) \<and> keeps_entries E \<and>
            LoadImageTensord_call E tself data s = (Inr d', s') \<longrightarrow>
            d' = Rec (length (recs s)) \<and>
            meta_outcome s s' al (length (recs s)) k (k @ ''_'' @ PostFix_meta E))
       \<and> (\<forall>d' s'. k \<in> set (keysx xself) \<and> keeps_entries E \<and>
            LoadImageExd_call E xself data reader s = (Inr d', s') \<longrightarrow>
            d' = Rec (length (recs s)) \<and>
            (\<exists>i < length (keysx xself). keysx xself ! i = k \<and> i < length (meta_key_postfix xself) \<and>
               meta_outcome s s' al (length (recs s)) k (k @ ''_'' @ meta_key_postfix xself ! i)))
       \<and> (shipped E \<and> (\<exists>ks. keysx xself = k # ks) \<longrightarrow>
            LoadImageExd_call E xself data reader s
              = (Inl (NameError ''np''), s\<lparr>recs := recs s @ [al]\<rparr>))"
proof (intro conjI allI impI; (elim conjE exE)?)
  let ?d = "length (recs s)"
  let ?s0 = "s\<lparr>recs := recs s @ [al]\<rparr>"
  have v0: "map_of (recs ?s0 ! ?d) k = Some (VArr a)" using assms(2) by simp
  have o0: "stable_inv al (length (dicts s)) ?d ?s0"
    by (rule stable_inv_init) simp_all
  {
    fix d key ud st b st' v
    assume b: "LoadImageTensord_body E d key ud st = (Inr b, st')"
      and v: "map_of (recs st ! d) key = Some v" and np: "\<not> is_path v"
    from b show "created_then_populated E st st' d key (key @ ''_'' @ PostFix_meta E)"
    proof (cases rule: LoadImageTensord_body_cases)
      case (path p)
      with v np show ?thesis by (auto simp: is_path_def)
    next
      case (direct v' r1)
      then obtain u where
        "to_meta_tensor E d key (key @ ''_'' @ PostFix_meta E) st = (Inr u, st')"
        by (cases r1) auto
      then show ?thesis by (rule to_meta_tensor_created)
    qed simp_all
  }
  {
    fix d ik b st b' st' a'
    assume b: "LoadImageExd_body E xself d ik b st = (Inr b', st')"
      and v: "map_of (recs st ! d) (snd ik) = Some (VArr a')"
    from b have "''np'' \<in> set (injected E) \<and> fst ik < length (meta_key_postfix xself) \<and>
        created_then_populated E st st' d (snd ik) (exd_meta_key xself ik)"
    proof (cases rule: LoadImageExd_body_cases)
      case (skip v')
      with v show ?thesis by (auto simp: is_ndarray_def)
    next
      case (direct a1 r1)
      then obtain u where
        "to_meta_tensor E d (snd ik) (snd ik @ ''_'' @ meta_key_postfix xself ! fst ik) st = (Inr u, st')"
        by (cases r1) auto
      from to_meta_tensor_created [OF this] direct(3,4) show ?thesis
        by (simp add: exd_meta_key_def)
    qed simp_all
    then show "''np'' \<in> set (injected E)" "fst ik < length (meta_key_postfix xself)"
      "created_then_populated E st st' d (snd ik) (exd_meta_key xself ik)"
      by simp_all
  }
  {
    fix d' s'
    assume k: "k \<in> set (keys tself)" and ke: "keeps_entries E"
      and c: "LoadImageTensord_call E tself data s = (Inr d', s')"
    from LoadImageTensord_call_direct [OF assms(1) c k assms(2)]
    have d': "d' = Rec ?d" and l: "LoadImageTensord_loop E ?d (keys tself) True ?s0 = (Inr False, s')"
      by simp_all
    show "d' = Rec ?d" by (rule d')
    from LoadImageTensord_loop_converted [OF l k v0 ke] obtain m where
      "converted s' ?d k (k @ ''_'' @ PostFix_meta E) a m" by blast
    from meta_outcomeI [OF this LoadImageTensord_loop_stable [OF l o0]]
    show "meta_outcome s s' al ?d k (k @ ''_'' @ PostFix_meta E)" .
  }
  {
    fix d' s'
    assume k: "k \<in> set (keysx xself)" and ke: "keeps_entries E"
      and c: "LoadImageExd_call E xself data reader s = (Inr d', s')"
    note sh = LoadImageExd_call_shared [OF assms(1) c k assms(2)]
    show "d' = Rec ?d" by (rule sh(1))
    note l = sh(2)
    have "k \<in> snd ` set (enumerate 0 (keysx xself))" using k by simp
    from LoadImageExd_loop_converted [OF l this v0 ke] obtain ik m where
      ik: "ik \<in> set (enumerate 0 (keysx xself))" "snd ik = k" "fst ik < length (meta_key_postfix xself)"
        "converted s' ?d k (k @ ''_'' @ meta_key_postfix xself ! fst ik) a m"
      by blast
    obtain i j where ij: "ik = (i, j)" by (cases ik)
    from ik(1,2) have i: "fst ik < length (keysx xself)" "keysx xself ! fst ik = k"
      unfolding ij by (simp_all add: in_set_enumerate_eq)
    from meta_outcomeI [OF ik(4) LoadImageExd_loop_stable [OF l o0]]
    have "meta_outcome s s' al ?d k (k @ ''_'' @ meta_key_postfix xself ! fst ik)" .
    with i ik(3) show "\<exists>i < length (keysx xself). keysx xself ! i = k \<and>
        i < length (meta_key_postfix xself) \<and>
        meta_outcome s s' al ?d k (k @ ''_'' @ meta_key_postfix xself ! i)"
      by blast
  }
  fix ks
  assume sh: "shipped E" and ks: "keysx xself = k # ks"
  from sh have np: "''np'' \<notin> set (injected E)" by (simp add: shipped_def)
  have "?d < length (recs ?s0)" by simp
  from LoadImageExd_loop_shipped [OF np this, of xself "(0, k)" "enumerate 1 ks" False]
  have "LoadImageExd_loop E xself ?d (enumerate 0 (keysx xself)) False ?s0
      = (Inl (NameError ''np''), ?s0)"
    using assms(2) by (simp add: ks)
  then show "LoadImageExd_call E xself data reader s = (Inl (NameError ''np''), ?s0)"
    unfolding LoadImageExd_call_def using dict_copy_eq [OF assms(1)] by (simp add: bind_def)
qed

theorem metadata_created_then_populated_witness:
  "LoadImageTensord_body ex_env 1 ''image'' True ex_array_copied = (Inr False, ex_array_state1) \<and>
   created_then_populated ex_env ex_array_copied ex_array_state1 1 ''image'' ''image_meta_dict'' \<and>
   LoadImageTensord_body ex_env 1 ''image'' True ex_reuse_copied = (Inr False, ex_reuse_state1) \<and>
   created_then_populated ex_env ex_reuse_copied ex_reuse_state1 1 ''image'' ''image_meta_dict'' \<and>
   LoadImageTensord_call ex_env ex_tensord (Rec 0) ex_array_state = (Inr (Rec 1), ex_array_state1) \<and>
   meta_outcome ex_array_state ex_array_state1 [(''image'', VArr 0)] 1 ''image'' ''image_meta_dict'' \<and>
   LoadImageTensord_call ex_env ex_tensord (Rec 0) ex_reuse_state = (Inr (Rec 1), ex_reuse_state1) \<and>
   meta_outcome ex_reuse_state ex_reuse_state1 [(''image'', VArr 0), (''image_meta_dict'', VDict 0)]
     1 ''image'' ''image_meta_dict'' \<and>
   LoadImageExd_call ex_env ex_exd_image (Rec 0) None ex_array_state
     = (Inl (NameError ''np''), ex_array_copied) \<and>
   map_of (recs ex_array_copied ! 1) ''image_meta_dict'' = None \<and>
   LoadImageExd_call ex_env_patched ex_exd_image (Rec 0) None ex_array_state
     = (Inr (Rec 1), ex_array_state1) \<and>
   map_of (recs ex_array_state1 ! 1) ''image_meta_dict'' = Some (VDict 0) \<and>
   dicts ex_array_state1 ! 0 = ex_meta"
proof -
  have d: "dict_at ex_array_state (Rec 0) = Some [(''image'', VArr 0)]"
    and v: "map_of [(''image'', VArr 0)] ''image'' = Some (VArr 0)"
    by (simp_all add: ex_array_state_def)
  have s0: "ex_array_state\<lparr>recs := recs ex_array_state @ [[(''image'', VArr 0)]]\<rparr> = ex_array_copied"
    "length (recs ex_array_state) = 1"
    by (simp_all add: ex_array_state_def ex_array_copied_def)
  have pf: "PostFix_meta ex_env = ''meta_dict''" by (simp add: ex_env_def)
  have b1: "LoadImageTensord_body ex_env 1 ''image'' True ex_array_copied = (Inr False, ex_array_state1)"
    by (simp add: run_defs ex_defs ex_array_copied_def ex_array_state1_def)
  have b2: "LoadImageTensord_body ex_env 1 ''image'' True ex_reuse_copied = (Inr False, ex_reuse_state1)"
    by (simp add: run_defs ex_defs ex_reuse_copied_def ex_reuse_state1_def)
  have v1: "map_of (recs ex_array_copied ! 1) ''image'' = Some (VArr 0) \<and> \<not> is_path (VArr 0)"
    by (simp add: ex_array_copied_def is_path_def)
  have v2: "map_of (recs ex_reuse_copied ! 1) ''image'' = Some (VArr 0) \<and> \<not> is_path (VArr 0)"
    by (simp add: ex_reuse_copied_def is_path_def)
  have t: "LoadImageTensord_call ex_env ex_tensord (Rec 0) ex_array_state = (Inr (Rec 1), ex_array_state1)"
    by (simp add: run_defs ex_defs ex_tensord_def ex_array_state_def ex_array_state1_def)
  have x: "LoadImageExd_call ex_env_patched ex_exd_image (Rec 0) None ex_array_state
      = (Inr (Rec 1), ex_array_state1)"
    by (simp add: run_defs ex_defs ex_exd_image_def ex_array_state_def ex_array_state1_def)
  have kt: "''image'' \<in> set (keys ex_tensord)" by (simp add: ex_tensord_def)
  have kx: "\<exists>ks. keysx ex_exd_image = ''image'' # ks" by (simp add: ex_exd_image_def)
  have sh: "shipped ex_env" by (simp add: shipped_def ex_env_def)
  note th = metadata_created_then_populated [OF d v, of ex_env ex_exd_image ex_tensord None,
      unfolded s0 pf]
  from th b1 v1
  have 1: "created_then_populated ex_env ex_array_copied ex_array_state1 1 ''image'' (''image'' @ ''_'' @ ''meta_dict'')"
    by blast
  from th b2 v2
  have 2: "created_then_populated ex_env ex_reuse_copied ex_reuse_state1 1 ''image'' (''image'' @ ''_'' @ ''meta_dict'')"
    by blast
  from th kt keeps_entries_ex_env t
  have 3: "meta_outcome ex_array_state ex_array_state1 [(''image'', VArr 0)] 1 ''image''
      (''image'' @ ''_'' @ ''meta_dict'')"
    by blast
  from th sh kx
  have 4: "LoadImageExd_call ex_env ex_exd_image (Rec 0) None ex_array_state
      = (Inl (NameError ''np''), ex_array_copied)"
    by blast
  have dr: "dict_at ex_reuse_state (Rec 0) = Some [(''image'', VArr 0), (''image_meta_dict'', VDict 0)]"
    and vr: "map_of [(''image'', VArr 0), (''image_meta_dict'', VDict 0)] ''image'' = Some (VArr 0)"
    and lr: "length (recs ex_reuse_state) = 1"
    by (simp_all add: ex_reuse_state_def)
  have tr: "LoadImageTensord_call ex_env ex_tensord (Rec 0) ex_reuse_state = (Inr (Rec 1), ex_reuse_state1)"
    by (simp add: run_defs ex_defs ex_tensord_def ex_reuse_state_def ex_reuse_state1_def)
  from metadata_created_then_populated [OF dr vr, of ex_env ex_exd_image ex_tensord None,
      unfolded lr pf] kt keeps_entries_ex_env tr
  have 6: "meta_outcome ex_reuse_state ex_reuse_state1 [(''image'', VArr 0), (''image_meta_dict'', VDict 0)]
      1 ''image'' (''image'' @ ''_'' @ ''meta_dict'')"
    by blast
  have 5: "map_of (recs ex_array_copied ! 1) ''image_meta_dict'' = None"
    "map_of (recs ex_array_state1 ! 1) ''image_meta_dict'' = Some (VDict 0)"
    "dicts ex_array_state1 ! 0 = ex_meta"
    by (simp_all add: ex_array_copied_def ex_array_state1_def)
  from b1 b2 t tr x 1 2 3 4 5 6 show ?thesis by simp
qed

section \<open>Missing keys\<close>

text \<open>
  Claim C10 as stated fails: a target key that the record does not bind need not be
  missing any more when its round comes. With the keys \<open>image\<close> and
  \<open>image_meta_dict\<close> and the record \<open>{"image": array}\<close>, the round of \<open>image\<close>
  binds \<open>image_meta_dict\<close> to the new metadata mapping, and the round of
  \<open>image_meta_dict\<close> fails on the \<open>shape\<close> of that mapping: AttributeError, not
  KeyError.
\<close>

theorem missing_key_counterexample:
  "keys ex_tensord_chain = [''image'', ''image_meta_dict''] \<and>
   allow_missing_keys ex_tensord_chain \<and>
   map_of (recs ex_array_state ! 0) ''image_meta_dict'' = None \<and>
   LoadImageTensord_call ex_env ex_tensord_chain (Rec 0) ex_array_state
     = (Inl AttributeError, ex_chain_state)"
  by (simp add: run_defs ex_defs ex_tensord_chain_def ex_array_state_def ex_chain_state_def)

text \<open>
  Claim C10, amended. Neither \<open>LoadImageTensord\<close> nor \<open>NormalizeLabeld\<close> reads
  \<open>allow_missing_keys\<close>. Let a target key be missing from the caller's dictionary. Then
  the call never returns, whatever the flag is; and when the rounds for the keys before it
  complete (and, in the loader, none of them has the key as its metadata key), the
  round that indexes the key raises KeyError for that key.
\<close>

theorem missing_key_raises:
  assumes "dict_at s data = Some al" and "map_of al k = None"
  shows "(\<forall>ks1 ks2 b s1.
            keys tself = ks1 @ k # ks2 \<and> k \<notin> (\<lambda>j. j @ ''_'' @ PostFix_meta E) ` set ks1 \<and>
            LoadImageTensord_loop E (length (recs s)) ks1 True
              (s\<lparr>recs := recs s @ [al]\<rparr>) = (Inr b, s1) \<longrightarrow>
            LoadImageTensord_call E (tself\<lparr>allow_missing_keys := flag\<rparr>) data s
              = (Inl (KeyError k), s1))
       \<and> (k \<in> set (keys tself) \<longrightarrow>
            (\<forall>d' s'. LoadImageTensord_call E (tself\<lparr>allow_missing_keys := flag\<rparr>) data s \<noteq> (Inr d', s')))
       \<and> (\<forall>ks1 ks2 s1.
            keysn nself = ks1 @ k # ks2 \<and>
            NormalizeLabeld_loop E nself (length (recs s)) ks1
              (s\<lparr>recs := recs s @ [al]\<rparr>) = (Inr (), s1) \<longrightarrow>
            NormalizeLabeld_call E (nself\<lparr>allow_missing_keysn := flag\<rparr>) data s
              = (Inl (KeyError k), s1))
       \<and> (k \<in> set (keysn nself) \<longrightarrow>
            (\<forall>d' s'. NormalizeLabeld_call E (nself\<lparr>allow_missing_keysn := flag\<rparr>) data s \<noteq> (Inr d', s')))"
proof (intro conjI allI impI; (elim conjE)?)
  fix ks1 ks2 b s1
  assume "keys tself = ks1 @ k # ks2" "k \<notin> (\<lambda>j. j @ ''_'' @ PostFix_meta E) ` set ks1"
    "LoadImageTensord_loop E (length (recs s)) ks1 True
              (s\<lparr>recs := recs s @ [al]\<rparr>) = (Inr b, s1)"
  from LoadImageTensord_call_missing [OF assms this]
  show "LoadImageTensord_call E (tself\<lparr>allow_missing_keys := flag\<rparr>) data s = (Inl (KeyError k), s1)"
    by simp
next
  fix d' s' assume "k \<in> set (keys tself)"
  from LoadImageTensord_call_never [OF assms this]
  show "LoadImageTensord_call E (tself\<lparr>allow_missing_keys := flag\<rparr>) data s \<noteq> (Inr d', s')"
    by simp
next
  fix ks1 ks2 s1
  assume "keysn nself = ks1 @ k # ks2"
    "NormalizeLabeld_loop E nself (length (recs s)) ks1
              (s\<lparr>recs := recs s @ [al]\<rparr>) = (Inr (), s1)"
  from NormalizeLabeld_call_missing [OF assms this]
  show "NormalizeLabeld_call E (nself\<lparr>allow_missing_keysn := flag\<rparr>) data s = (Inl (KeyError k), s1)"
    by simp
next
  fix d' s' assume "k \<in> set (keysn nself)"
  from NormalizeLabeld_call_never [OF assms this]
  show "NormalizeLabeld_call E (nself\<lparr>allow_missing_keysn := flag\<rparr>) data s \<noteq> (Inr d', s')"
    by simp
qed

theorem missing_key_raises_witness:
  "LoadImageTensord_call ex_env (ex_tensord_mask\<lparr>allow_missing_keys := True\<rparr>) (Rec 0) ex_array_state
     = (Inl (KeyError ''mask''), ex_array_state1) \<and>
   NormalizeLabeld_call ex_env (ex_normalize_mask\<lparr>allow_missing_keysn := True\<rparr>) (Rec 0) ex_label_state
     = (Inl (KeyError ''mask''), ex_label_state1)"
proof -
  have d: "dict_at ex_array_state (Rec 0) = Some [(''image'', VArr 0)]"
    and k: "map_of [(''image'', VArr 0)] ''mask'' = None"
    by (simp_all add: ex_array_state_def)
  have d': "dict_at ex_label_state (Rec 0) = Some [(''label'', VArr 0)]"
    and k': "map_of [(''label'', VArr 0)] ''mask'' = None"
    by (simp_all add: ex_label_state_def)
  have t: "keys ex_tensord_mask = [''image''] @ ''mask'' # [] \<and>
      ''mask'' \<notin> (\<lambda>j. j @ ''_'' @ PostFix_meta ex_env) ` set [''image''] \<and>
      LoadImageTensord_loop ex_env (length (recs ex_array_state)) [''image''] True
        (ex_array_state\<lparr>recs := recs ex_array_state @ [[(''image'', VArr 0)]]\<rparr>)
        = (Inr False, ex_array_state1)"
    by (simp add: run_defs ex_defs ex_tensord_mask_def ex_array_state_def ex_array_state1_def)
  have n: "keysn ex_normalize_mask = [''label''] @ ''mask'' # [] \<and>
      NormalizeLabeld_loop ex_env ex_normalize_mask (length (recs ex_label_state)) [''label'']
        (ex_label_state\<lparr>recs := recs ex_label_state @ [[(''label'', VArr 0)]]\<rparr>)
        = (Inr (), ex_label_state1)"
    by (simp add: run_defs ex_defs np_cast_def binarize_def binarized_def
        ex_normalize_mask_def ex_label_state_def ex_label_state1_def)
  from missing_key_raises [OF d k, of ex_tensord_mask ex_env True] t
  have 1: "LoadImageTensord_call ex_env (ex_tensord_mask\<lparr>allow_missing_keys := True\<rparr>) (Rec 0) ex_array_state
     = (Inl (KeyError ''mask''), ex_array_state1)"
    by blast
  from missing_key_raises [OF d' k', of _ ex_env True ex_normalize_mask] n
  have 2: "NormalizeLabeld_call ex_env (ex_normalize_mask\<lparr>allow_missing_keysn := True\<rparr>) (Rec 0) ex_label_state
     = (Inl (KeyError ''mask''), ex_label_state1)"
    by blast
  from 1 2 show ?thesis by simp
qed


end
